theory Spec2Isabelle
  imports Main "HOL-Library.Word"
begin

unbundle bit_operations_syntax

section \<open>Common conventions\<close>

text \<open>
  JavaScript strings are modelled as \<open>string\<close>, one \<open>char\<close> per character of an ASCII
  text (peer identities, dotted addresses and the strings of binary digits are ASCII).
  A JavaScript number that may be \<open>NaN\<close> (or a field that may be \<open>undefined\<close>) is an
  \<open>option\<close>, \<open>None\<close> standing for \<open>NaN\<close> (\<open>undefined\<close>). An exception thrown by the
  source is the \<open>Inl\<close> branch of a sum.
\<close>

datatype error = TypeError | RangeError

text \<open>Sequencing: an exception of the first computation is the result.\<close>

fun and_then :: "error + 'a \<Rightarrow> ('a \<Rightarrow> error + 'b) \<Rightarrow> error + 'b" where
  "and_then (Inl e) f = Inl e"
| "and_then (Inr x) f = f x"

text \<open>Comparisons of JavaScript numbers: every comparison with \<open>NaN\<close> is false.\<close>

fun js_lt :: "nat option \<Rightarrow> nat option \<Rightarrow> bool" where
  "js_lt (Some a) (Some b) = (a < b)"
| "js_lt _ _ = False"

fun js_gt :: "nat option \<Rightarrow> nat option \<Rightarrow> bool" where
  "js_gt (Some a) (Some b) = (a > b)"
| "js_gt _ _ = False"

fun js_eq :: "nat option \<Rightarrow> nat option \<Rightarrow> bool" where
  "js_eq (Some a) (Some b) = (a = b)"
| "js_eq _ _ = False"

section \<open>Singleton.js\<close>

text \<open>\<open>parseInt(str, 16)\<close> on a string of one character: the digit's value, or \<open>NaN\<close>.\<close>

definition parseInt16 :: "char \<Rightarrow> nat option" where
  "parseInt16 c =
     (let n = (of_char c :: nat) in
      if 48 \<le> n \<and> n \<le> 57 then Some (n - 48)
      else if 97 \<le> n \<and> n \<le> 102 then Some (n - 87)
      else if 65 \<le> n \<and> n \<le> 70 then Some (n - 55)
      else None)"

text \<open>\<open>Number.prototype.toString(2)\<close> on a non-negative integer.\<close>

fun toString2 :: "nat \<Rightarrow> string" where
  "toString2 n =
     (if n < 2 then [if n = 0 then CHR ''0'' else CHR ''1'']
      else toString2 (n div 2) @ [if n mod 2 = 0 then CHR ''0'' else CHR ''1''])"

declare toString2.simps [simp del]

definition numToString2 :: "nat option \<Rightarrow> string" where
  "numToString2 v = (case v of None \<Rightarrow> ''NaN'' | Some n \<Rightarrow> toString2 n)"

definition padStart :: "string \<Rightarrow> nat \<Rightarrow> char \<Rightarrow> string" where
  "padStart s targetLength c = replicate (targetLength - length s) c @ s"

text \<open>
  \<open>Hex2Bin\<close>: every character of the identity becomes four characters, its value in
  binary padded with zeros (\<open>0NaN\<close> for a character that is no hexadecimal digit).
\<close>

definition Hex2Bin :: "string \<Rightarrow> string" where
  "Hex2Bin hex = concat (map (\<lambda>str. padStart (numToString2 (parseInt16 str)) 4 CHR ''0'') hex)"

text \<open>
  \<open>XORing\<close> runs over the indices of \<open>a\<close>; beyond the end of \<open>b\<close> the read \<open>b[i]\<close> is
  \<open>undefined\<close>, which differs from every character.
\<close>

fun XORing :: "string \<Rightarrow> string \<Rightarrow> string" where
  "XORing [] b = []"
| "XORing (x # a) [] = CHR ''1'' # XORing a []"
| "XORing (x # a) (y # b) = (if x = y then CHR ''0'' else CHR ''1'') # XORing a b"

text \<open>\<open>String.prototype.indexOf\<close> for one character: \<open>-1\<close> when it does not occur.\<close>

fun indexOf :: "string \<Rightarrow> char \<Rightarrow> int" where
  "indexOf [] c = -1"
| "indexOf (x # xs) c = (if x = c then 0 else (let r = indexOf xs c in if r = -1 then -1 else r + 1))"

text \<open>
  \<open>parseInt(s, 2)\<close>: the value of the longest prefix of binary digits, \<open>NaN\<close> when that
  prefix is empty. The strings given to it are results of \<open>XORing\<close>, without blanks or
  sign. The source computes in double precision, which holds every value below
  \<open>2 ^ 53\<close> exactly; the model returns the exact value and is the source's up to 53
  binary digits, that is for local identities of at most 13 characters. The statements
  about distances below take 16-bit identities.
\<close>

definition parseInt2 :: "string \<Rightarrow> nat option" where
  "parseInt2 s =
     (let ds = takeWhile (\<lambda>c. c = CHR ''0'' \<or> c = CHR ''1'') s in
      if ds = [] then None
      else Some (foldl (\<lambda>acc c. 2 * acc + (if c = CHR ''1'' then 1 else 0)) 0 ds))"

section \<open>RoutingTable.js\<close>

text \<open>
  A peer object. The routing table stores the objects it is given; the decoder builds
  objects with \<open>ip\<close>, \<open>port\<close> and \<open>peerID\<close> only, the other two fields being
  \<open>undefined\<close> there.
\<close>

record peer =
  ip :: string
  port :: nat
  peerID :: string
  senderName :: "string option"
  lastSeen :: "nat option"

text \<open>The object \<open>this\<close> of the class: the local identity and the array of buckets.\<close>

record routing_table =
  peerID :: string
  kBuckets :: "peer list list"

text \<open>The constructor: sixteen empty buckets.\<close>

definition new_RoutingTable :: "string \<Rightarrow> routing_table" where
  "new_RoutingTable pid = \<lparr>peerID = pid, kBuckets = replicate 16 []\<rparr>"

text \<open>
  \<open>getBucketIndex\<close>. The \<open>catch\<close> branch (result \<open>-1\<close>) is taken only when
  \<open>Hex2Bin\<close> throws, which it does not on a string.
\<close>

definition getBucketIndex :: "routing_table \<Rightarrow> string \<Rightarrow> int" where
  "getBucketIndex this pid =
     (let thisPeerBinary = Hex2Bin (peerID this);
          otherPeerBinary = Hex2Bin pid;
          xorResult = XORing thisPeerBinary otherPeerBinary;
          index = indexOf xorResult CHR ''1''
      in if index = -1 then 0 else index)"

definition comparePeerDistance :: "routing_table \<Rightarrow> peer \<Rightarrow> peer \<Rightarrow> bool" where
  "comparePeerDistance this existingPeer newPeer =
     (let thisPeerBinary = Hex2Bin (peerID this);
          existingPeerBinary = Hex2Bin (peer.peerID existingPeer);
          newPeerBinary = Hex2Bin (peer.peerID newPeer);
          distanceExisting = parseInt2 (XORing thisPeerBinary existingPeerBinary);
          distanceNew = parseInt2 (XORing thisPeerBinary newPeerBinary)
      in if js_lt distanceNew distanceExisting then True
         else if js_eq distanceNew distanceExisting then
           (if js_gt (lastSeen newPeer) (lastSeen existingPeer) then True else False)
         else False)"

text \<open>
  \<open>pushBucket\<close>; \<open>now\<close> is the value of \<open>singleton.getTimestamp()\<close>. An identity that
  is the empty string is falsy and rejected. Reading \<open>bucket.length\<close> of a bucket beyond
  the sixteen throws a \<open>TypeError\<close>, which this method does not catch.
\<close>

definition pushBucket :: "nat \<Rightarrow> routing_table \<Rightarrow> peer \<Rightarrow> error + routing_table" where
  "pushBucket now this peer0 =
     (if peer.peerID peer0 = [] then Inr this
      else
        let p = (if lastSeen peer0 = None then peer0\<lparr>lastSeen := Some now\<rparr> else peer0);
            bucketIndex = getBucketIndex this (peer.peerID p)
        in if bucketIndex = -1 then Inr this
           else if \<not> nat bucketIndex < length (kBuckets this) then Inl TypeError
           else
             (case kBuckets this ! nat bucketIndex of
                [] \<Rightarrow> Inr (this\<lparr>kBuckets := (kBuckets this)[nat bucketIndex := [p]]\<rparr>)
              | existingPeer # others \<Rightarrow>
                  if comparePeerDistance this existingPeer p
                  then Inr (this\<lparr>kBuckets := (kBuckets this)[nat bucketIndex := p # others]\<rparr>)
                  else Inr this))"

text \<open>
  \<open>removePeer\<close>. Filtering a bucket beyond the sixteen throws inside the \<open>try\<close>; the
  \<open>catch\<close> logs and the table stays as it was.
\<close>

definition removePeer :: "routing_table \<Rightarrow> string \<Rightarrow> routing_table" where
  "removePeer this pid =
     (let bucketIndex = getBucketIndex this pid in
      if bucketIndex \<noteq> -1 then
        (if nat bucketIndex < length (kBuckets this)
         then this\<lparr>kBuckets := (kBuckets this)
                [nat bucketIndex := filter (\<lambda>p. peer.peerID p \<noteq> pid) (kBuckets this ! nat bucketIndex)]\<rparr>
         else this)
      else this)"

text \<open>
  \<open>Array.prototype.sort\<close> with a comparison function is stable; a comparison result
  \<open>NaN\<close> counts as zero. The stable order is computed here by insertion.
\<close>

fun insert_sorted :: "('a \<Rightarrow> 'a \<Rightarrow> int option) \<Rightarrow> 'a \<Rightarrow> 'a list \<Rightarrow> 'a list" where
  "insert_sorted cmp x [] = [x]"
| "insert_sorted cmp x (y # ys) =
     (if (case cmp x y of None \<Rightarrow> 0 | Some d \<Rightarrow> d) \<le> 0 then x # y # ys
      else y # insert_sorted cmp x ys)"

definition Array_sort :: "('a \<Rightarrow> 'a \<Rightarrow> int option) \<Rightarrow> 'a list \<Rightarrow> 'a list" where
  "Array_sort cmp xs = foldr (insert_sorted cmp) xs []"

text \<open>Subtraction of JavaScript numbers.\<close>

fun js_minus :: "nat option \<Rightarrow> nat option \<Rightarrow> int option" where
  "js_minus (Some a) (Some b) = Some (int a - int b)"
| "js_minus _ _ = None"

text \<open>\<open>getClosestPeers\<close>: the parameter \<open>targetID\<close> is not read by the body.\<close>

definition getClosestPeers :: "routing_table \<Rightarrow> string \<Rightarrow> peer list" where
  "getClosestPeers this targetID =
     (let allPeers = concat (kBuckets this);
          sorted = Array_sort (\<lambda>a b.
             let distanceA = parseInt2 (XORing (Hex2Bin (peerID this)) (Hex2Bin (peer.peerID a)));
                 distanceB = parseInt2 (XORing (Hex2Bin (peerID this)) (Hex2Bin (peer.peerID b)))
             in js_minus distanceA distanceB) allPeers
      in take 1 sorted)"

definition hasPeer :: "routing_table \<Rightarrow> string \<Rightarrow> bool" where
  "hasPeer this pid = list_ex (\<lambda>bucket. list_ex (\<lambda>p. peer.peerID p = pid) bucket) (kBuckets this)"

section \<open>Heartbeat.js\<close>

text \<open>
  The module's \<open>missedCounts\<close> object, keyed by identity: the map holds the counts that
  are numbers. The object is a plain one, so under the names that every object inherits
  it holds a value that is not \<open>undefined\<close> and not a number before a count is stored
  there.
\<close>

type_synonym missed_counts = "string \<rightharpoonup> nat"

definition inherited_name :: "string \<Rightarrow> bool" where
  "inherited_name k =
     (k \<in> set [''constructor'', ''toString'', ''toLocaleString'', ''valueOf'',
                ''hasOwnProperty'', ''isPrototypeOf'', ''propertyIsEnumerable'', ''__proto__'',
                ''__defineGetter__'', ''__defineSetter__'', ''__lookupGetter__'',
                ''__lookupSetter__''])"

definition getAllPeers :: "routing_table \<Rightarrow> peer list" where
  "getAllPeers routingTable = concat (kBuckets routingTable)"

text \<open>
  The body of the loop over the peers in one heartbeat cycle: the message is handed to
  \<open>sendFunction\<close> (a callback that opens a connection for later; it is taken to return
  and has no effect on the two structures), the count is set or incremented, and the
  peer is removed at three. For an inherited name with no number stored the value read
  is not \<open>undefined\<close>, the increment turns it into \<open>NaN\<close>, and \<open>NaN >= 3\<close> is false:
  no number is stored and the peer stays.
\<close>

definition cyclePeer :: "routing_table \<times> missed_counts \<Rightarrow> peer \<Rightarrow> routing_table \<times> missed_counts" where
  "cyclePeer st p =
     (let routingTable = fst st; missedCounts = snd st in
      if missedCounts (peer.peerID p) = None \<and> inherited_name (peer.peerID p)
      then (routingTable, missedCounts)
      else
        let missedCounts1 = (case missedCounts (peer.peerID p) of
                               None \<Rightarrow> missedCounts(peer.peerID p \<mapsto> 1)
                             | Some n \<Rightarrow> missedCounts(peer.peerID p \<mapsto> n + 1))
        in if (case missedCounts1 (peer.peerID p) of None \<Rightarrow> False | Some n \<Rightarrow> n \<ge> 3)
           then (removePeer routingTable (peer.peerID p), missedCounts1(peer.peerID p := None))
           else (routingTable, missedCounts1))"

text \<open>
  One run of the interval callback of \<open>startHeartbeat\<close>: the peers are enumerated once,
  at the start, and visited in that order.
\<close>

definition heartbeatCycle :: "routing_table \<times> missed_counts \<Rightarrow> routing_table \<times> missed_counts" where
  "heartbeatCycle st = foldl cyclePeer st (getAllPeers (fst st))"

text \<open>
  \<open>handleHeartbeatResponse\<close>; \<open>now\<close> is \<open>singleton.getTimestamp()\<close>, the first component
  of the state is \<open>global.routingTable\<close> (\<open>None\<close> when it is not set). The identity is
  one that the decoder delivers, two bytes in hexadecimal; the assignment stores the
  count under every name but \<open>__proto__\<close>.
\<close>

fun touchBucket :: "nat \<Rightarrow> string \<Rightarrow> peer list \<Rightarrow> peer list" where
  "touchBucket now pid [] = []"
| "touchBucket now pid (p # bucket) =
     (if peer.peerID p = pid then p\<lparr>lastSeen := Some now\<rparr> else p) # touchBucket now pid bucket"

fun touchBuckets :: "nat \<Rightarrow> string \<Rightarrow> peer list list \<Rightarrow> peer list list" where
  "touchBuckets now pid [] = []"
| "touchBuckets now pid (bucket # buckets) = touchBucket now pid bucket # touchBuckets now pid buckets"

definition handleHeartbeatResponse ::
  "nat \<Rightarrow> string \<Rightarrow> routing_table option \<times> missed_counts \<Rightarrow> routing_table option \<times> missed_counts" where
  "handleHeartbeatResponse now pid st =
     (let missedCounts = (snd st)(pid \<mapsto> 0) in
      case fst st of
        None \<Rightarrow> (None, missedCounts)
      | Some routingTable \<Rightarrow>
          (Some (routingTable\<lparr>kBuckets := touchBuckets now pid (kBuckets routingTable)\<rparr>), missedCounts))"

section \<open>kPTP.js\<close>

text \<open>
  A \<open>Buffer\<close> is a list of bytes. A string is written to a buffer and read back as
  UTF-8; an ASCII text is its own encoding, one byte per character, and the model takes
  every string as the sequence of its bytes. \<open>JSON.stringify\<close> and \<open>JSON.parse\<close> are
  functions of the platform and are parameters of the functions that call them:
  \<open>JSON_stringify\<close> gives \<open>None\<close> where the platform gives \<open>undefined\<close>, and
  \<open>JSON_parse\<close> gives \<open>None\<close> where the platform throws or yields \<open>null\<close>.
\<close>

type_synonym byte = "8 word"
type_synonym Buffer = "byte list"

definition kPTP_VERSION :: nat where "kPTP_VERSION = 18"
definition WELCOME :: nat where "WELCOME = 2"
definition HELLO :: nat where "HELLO = 4"
definition HEARTBEAT :: nat where "HEARTBEAT = 6"
definition HEARTBEAT_RESPONSE :: nat where "HEARTBEAT_RESPONSE = 8"

definition byte_of_char :: "char \<Rightarrow> byte" where
  "byte_of_char c = of_nat (of_char c)"

definition char_of_byte :: "byte \<Rightarrow> char" where
  "char_of_byte b = char_of (unat b)"

definition Buffer_from_utf8 :: "string \<Rightarrow> Buffer" where
  "Buffer_from_utf8 s = map byte_of_char s"

definition toString_utf8 :: "Buffer \<Rightarrow> string" where
  "toString_utf8 buf = map char_of_byte buf"

text \<open>\<open>String.prototype.split\<close> with a separator of one character.\<close>

fun split :: "string \<Rightarrow> char \<Rightarrow> string list" where
  "split [] sep = [[]]"
| "split (x # xs) sep =
     (if x = sep then [] # split xs sep
      else (case split xs sep of [] \<Rightarrow> [[x]] | w # ws \<Rightarrow> (x # w) # ws))"

text \<open>\<open>Array.prototype.join\<close>.\<close>

fun join :: "string list \<Rightarrow> string \<Rightarrow> string" where
  "join [] sep = []"
| "join [w] sep = w"
| "join (w # v # ws) sep = w @ sep @ join (v # ws) sep"

definition is_digit :: "char \<Rightarrow> bool" where
  "is_digit c = (48 \<le> (of_char c :: nat) \<and> (of_char c :: nat) \<le> 57)"

text \<open>
  \<open>Number(s)\<close>: zero for the empty string, the value of a string of decimal digits,
  \<open>NaN\<close> for a string that is no numeric literal. (Literals with blanks, a sign, an
  exponent or a radix prefix cannot follow from the dotted addresses considered here,
  and the model is exact on all other strings.)
\<close>

definition decimal_value :: "string \<Rightarrow> nat" where
  "decimal_value s = foldl (\<lambda>acc c. 10 * acc + ((of_char c :: nat) - 48)) 0 s"

definition js_Number :: "string \<Rightarrow> nat option" where
  "js_Number s = (if list_all is_digit s then Some (decimal_value s) else None)"

text \<open>Storing a number in an element of a buffer: \<open>NaN\<close> and \<open>undefined\<close> become 0.\<close>

definition toUint8 :: "nat option \<Rightarrow> byte" where
  "toUint8 v = (case v of None \<Rightarrow> 0 | Some n \<Rightarrow> of_nat n)"

definition encodeIP :: "string \<Rightarrow> Buffer" where
  "encodeIP ip_str =
     (let parts = map js_Number (split ip_str CHR ''.'') in
      map (\<lambda>i. toUint8 (if i < length parts then parts ! i else None)) [0, 1, 2, 3])"

text \<open>\<open>writeUInt8\<close> and \<open>writeUInt16BE\<close> throw a \<open>RangeError\<close> on a value out of range.\<close>

definition writeUInt8 :: "nat \<Rightarrow> error + Buffer" where
  "writeUInt8 v = (if v \<le> 255 then Inr [of_nat v] else Inl RangeError)"

definition writeUInt16BE :: "nat \<Rightarrow> error + Buffer" where
  "writeUInt16BE v =
     (if v \<le> 65535 then Inr [of_nat (v div 256), of_nat (v mod 256)] else Inl RangeError)"

text \<open>\<open>encodePort\<close>: the port is a number, which \<open>parseInt\<close> returns as it is.\<close>

definition encodePort :: "nat \<Rightarrow> error + Buffer" where
  "encodePort p = writeUInt16BE p"

text \<open>
  \<open>Buffer.from(s, "hex")\<close>: one byte for every two hexadecimal digits, up to the first
  pair that is not one.
\<close>

fun Buffer_from_hex :: "string \<Rightarrow> Buffer" where
  "Buffer_from_hex (a # b # rest) =
     (case (parseInt16 a, parseInt16 b) of
        (Some x, Some y) \<Rightarrow> of_nat (16 * x + y) # Buffer_from_hex rest
      | _ \<Rightarrow> [])"
| "Buffer_from_hex _ = []"

definition encodePeerID :: "string \<Rightarrow> Buffer" where
  "encodePeerID pid = Buffer_from_hex pid"

definition createHeader :: "nat \<Rightarrow> nat \<Rightarrow> string \<Rightarrow> error + Buffer" where
  "createHeader messageType numPeers name =
     and_then (writeUInt8 kPTP_VERSION) (\<lambda>b0.
     and_then (writeUInt8 messageType) (\<lambda>b1.
     and_then (writeUInt8 numPeers) (\<lambda>b2.
     and_then (writeUInt16BE (length (Buffer_from_utf8 name))) (\<lambda>b34.
     Inr (b0 @ b1 @ b2 @ b34)))))"

definition encodePeerInfo :: "peer \<Rightarrow> error + Buffer" where
  "encodePeerInfo p =
     (let ipBuf = encodeIP (ip p) in
      and_then (encodePort (port p)) (\<lambda>portBuf.
      let idBuf = encodePeerID (peer.peerID p) in
      Inr (ipBuf @ portBuf @ idBuf)))"

text \<open>\<open>peers.map(encodePeerInfo)\<close>, stopping at the first exception.\<close>

fun encodePeers :: "peer list \<Rightarrow> error + Buffer list" where
  "encodePeers [] = Inr []"
| "encodePeers (p # ps) =
     and_then (encodePeerInfo p) (\<lambda>b.
     and_then (encodePeers ps) (\<lambda>bs. Inr (b # bs)))"

definition createMessage :: "nat \<Rightarrow> string \<Rightarrow> peer list \<Rightarrow> error + Buffer" where
  "createMessage messageType name ps =
     (let numPeers = length ps in
      and_then (createHeader messageType numPeers name) (\<lambda>header.
      and_then (encodePeers ps) (\<lambda>peersBuffers.
      let peersData = concat peersBuffers;
          senderNameBuf = Buffer_from_utf8 name
      in Inr (header @ peersData @ senderNameBuf))))"

definition createWelcomeMessage :: "string \<Rightarrow> peer list \<Rightarrow> error + Buffer" where
  "createWelcomeMessage name ps = createMessage WELCOME name ps"

text \<open>
  \<open>createHelloMessage\<close>: \<open>Buffer.from(undefined, "utf8")\<close> throws a \<open>TypeError\<close>.
\<close>

definition createHelloMessage ::
  "('j \<Rightarrow> string option) \<Rightarrow> string \<Rightarrow> peer list \<Rightarrow> 'j \<Rightarrow> error + Buffer" where
  "createHelloMessage JSON_stringify name ps selfInfo =
     and_then (createMessage HELLO name ps) (\<lambda>baseMessage.
       (case JSON_stringify selfInfo of
          None \<Rightarrow> Inl TypeError
        | Some text \<Rightarrow> Inr (baseMessage @ Buffer_from_utf8 text)))"

definition createHeartbeatMessage :: "string \<Rightarrow> string \<Rightarrow> nat \<Rightarrow> string \<Rightarrow> error + Buffer" where
  "createHeartbeatMessage name senderIP senderPort senderPeerID =
     createMessage HEARTBEAT name
       [\<lparr>ip = senderIP, port = senderPort, peerID = senderPeerID,
         peer.senderName = None, lastSeen = None\<rparr>]"

definition createHeartbeatResponse :: "string \<Rightarrow> string \<Rightarrow> nat \<Rightarrow> string \<Rightarrow> error + Buffer" where
  "createHeartbeatResponse name senderIP senderPort senderPeerID =
     createMessage HEARTBEAT_RESPONSE name
       [\<lparr>ip = senderIP, port = senderPort, peerID = senderPeerID,
         peer.senderName = None, lastSeen = None\<rparr>]"

subsection \<open>Decoding\<close>

record 'j message =
  version :: nat
  messageType :: nat
  numPeers :: nat
  senderName :: string
  peers :: "peer list"
  selfInfo :: "'j option"

text \<open>Reads throw a \<open>RangeError\<close> beyond the end of the buffer; \<open>slice\<close> is clamped to it.\<close>

definition readUInt8 :: "Buffer \<Rightarrow> nat \<Rightarrow> error + nat" where
  "readUInt8 buffer offset =
     (case drop offset buffer of a # _ \<Rightarrow> Inr (unat a) | _ \<Rightarrow> Inl RangeError)"

definition readUInt16BE :: "Buffer \<Rightarrow> nat \<Rightarrow> error + nat" where
  "readUInt16BE buffer offset =
     (case drop offset buffer of
        a # b # _ \<Rightarrow> Inr (256 * unat a + unat b)
      | _ \<Rightarrow> Inl RangeError)"

definition slice :: "Buffer \<Rightarrow> nat \<Rightarrow> nat \<Rightarrow> Buffer" where
  "slice buffer start end = take (end - start) (drop start buffer)"

text \<open>\<open>Number.prototype.toString()\<close> on a non-negative integer.\<close>

fun toString10 :: "nat \<Rightarrow> string" where
  "toString10 n =
     (if n < 10 then [char_of (48 + n)]
      else toString10 (n div 10) @ [char_of (48 + n mod 10)])"

declare toString10.simps [simp del]

definition hexDigit :: "nat \<Rightarrow> char" where
  "hexDigit n = (if n < 10 then char_of (48 + n) else char_of (87 + n))"

definition toString_hex :: "Buffer \<Rightarrow> string" where
  "toString_hex buf = concat (map (\<lambda>b. [hexDigit (unat b div 16), hexDigit (unat b mod 16)]) buf)"

text \<open>
  The loop over the peer entries, \<open>n\<close> entries still to read from \<open>offset\<close>; only the read
  of the port can throw.
\<close>

fun decodePeers :: "Buffer \<Rightarrow> nat \<Rightarrow> nat \<Rightarrow> error + (peer list \<times> nat)" where
  "decodePeers buffer 0 offset = Inr ([], offset)"
| "decodePeers buffer (Suc n) offset =
     (let ipBuf = slice buffer offset (offset + 4);
          ip_str = join (map (\<lambda>b. toString10 (unat b)) ipBuf) ''.''
      in and_then (readUInt16BE buffer (offset + 4)) (\<lambda>port_num.
         let pid = toString_hex (slice buffer (offset + 6) (offset + 8));
             p = \<lparr>ip = ip_str, port = port_num, peerID = pid,
                  peer.senderName = None, lastSeen = None\<rparr>
         in and_then (decodePeers buffer n (offset + 8)) (\<lambda>r.
              Inr (p # fst r, snd r))))"

definition decodeMessage :: "(string \<Rightarrow> 'j option) \<Rightarrow> Buffer \<Rightarrow> error + 'j message" where
  "decodeMessage JSON_parse buffer =
     and_then (readUInt8 buffer 0) (\<lambda>ver.
     and_then (readUInt8 buffer 1) (\<lambda>mtype.
     and_then (readUInt8 buffer 2) (\<lambda>npeers.
     and_then (readUInt16BE buffer 3) (\<lambda>senderNameLength.
     and_then (decodePeers buffer npeers 5) (\<lambda>r.
       let ps = fst r; offset = snd r;
           name = toString_utf8 (slice buffer offset (offset + senderNameLength));
           offset2 = offset + senderNameLength;
           info = (if offset2 < length buffer
                   then JSON_parse (toString_utf8 (drop offset2 buffer))
                   else None)
       in Inr \<lparr>version = ver, messageType = mtype, numPeers = npeers,
                senderName = name, peers = ps, selfInfo = info\<rparr>)))))"

section \<open>Runs and predicates of the statements\<close>

text \<open>A 16-bit identity: four hexadecimal digits.\<close>

definition is_identity :: "string \<Rightarrow> bool" where
  "is_identity s = (length s = 4 \<and> list_all (\<lambda>c. parseInt16 c \<noteq> None) s)"

text \<open>
  The distance of a peer from the local identity, as \<open>comparePeerDistance\<close> and
  \<open>getClosestPeers\<close> compute it.
\<close>

definition distance :: "string \<Rightarrow> string \<Rightarrow> nat option" where
  "distance a b = parseInt2 (XORing (Hex2Bin a) (Hex2Bin b))"

text \<open>
  The number that a string of binary digits writes, read on from \<open>a\<close>; the number that
  an identity writes in hexadecimal; and the distance of the metric, the exclusive-or of
  the numbers of two identities.
\<close>

definition binary_digit :: "char \<Rightarrow> bool" where
  "binary_digit c = (c = CHR ''0'' \<or> c = CHR ''1'')"

definition binary_value :: "nat \<Rightarrow> string \<Rightarrow> nat" where
  "binary_value a s = foldl (\<lambda>acc c. 2 * acc + (if c = CHR ''1'' then 1 else 0)) a s"

definition identity_value :: "string \<Rightarrow> nat" where
  "identity_value s =
     foldl (\<lambda>acc c. 16 * acc + (case parseInt16 c of None \<Rightarrow> 0 | Some n \<Rightarrow> n)) 0 s"

definition xor_distance :: "string \<Rightarrow> string \<Rightarrow> nat" where
  "xor_distance a b = identity_value a XOR identity_value b"

text \<open>
  Every record sits in the bucket that \<open>getBucketIndex\<close> gives its identity, and no
  bucket holds more than one record.
\<close>

definition well_placed :: "routing_table \<Rightarrow> bool" where
  "well_placed this =
     (length (kBuckets this) = 16 \<and>
      (\<forall>i < 16. length (kBuckets this ! i) \<le> 1 \<and>
         (\<forall>p \<in> set (kBuckets this ! i). getBucketIndex this (peer.peerID p) = int i)))"

text \<open>
  The events of a node. Handlers run to completion one after the other, so a run is a
  list of events: a heartbeat cycle, a heartbeat response for an identity, a call of
  \<open>pushBucket\<close> (whose exception leaves the table as it was), a call of \<open>removePeer\<close>.
  The table given to \<open>startHeartbeat\<close> is \<open>global.routingTable\<close>.
\<close>

datatype event = Cycle | Response nat string | Push nat peer | Remove string

fun step :: "routing_table \<times> missed_counts \<Rightarrow> event \<Rightarrow> routing_table \<times> missed_counts" where
  "step st Cycle = heartbeatCycle st"
| "step st (Response now pid) =
     (let r = handleHeartbeatResponse now pid (Some (fst st), snd st) in
      (case fst r of None \<Rightarrow> fst st | Some routingTable \<Rightarrow> routingTable, snd r))"
| "step st (Push now p) =
     (case pushBucket now (fst st) p of Inl e \<Rightarrow> st | Inr routingTable \<Rightarrow> (routingTable, snd st))"
| "step st (Remove pid) = (removePeer (fst st) pid, snd st)"

definition run :: "routing_table \<times> missed_counts \<Rightarrow> event list \<Rightarrow> routing_table \<times> missed_counts" where
  "run st es = foldl step st es"

text \<open>The state of a node that has just started.\<close>

definition initial :: "string \<Rightarrow> routing_table \<times> missed_counts" where
  "initial pid = (new_RoutingTable pid, Map.empty)"


definition cycles :: "event list \<Rightarrow> nat" where
  "cycles es = length (filter (\<lambda>e. e = Cycle) es)"

text \<open>
  A dotted address in its usual form: four parts, each the decimal text of a number up
  to 255 without leading zeros.
\<close>

definition is_octet_text :: "string \<Rightarrow> bool" where
  "is_octet_text w =
     (w \<noteq> [] \<and> list_all is_digit w \<and> (hd w \<noteq> CHR ''0'' \<or> w = ''0'') \<and> decimal_value w \<le> 255)"

definition is_dotted_quad :: "string \<Rightarrow> bool" where
  "is_dotted_quad s =
     (length (split s CHR ''.'') = 4 \<and> list_all is_octet_text (split s CHR ''.''))"

text \<open>An identity as the wire carries it: four hexadecimal digits in lower case.\<close>

definition is_wire_identity :: "string \<Rightarrow> bool" where
  "is_wire_identity s = (length s = 4 \<and> list_all (\<lambda>c. c \<in> set ''0123456789abcdef'') s)"

text \<open>A peer that the wire format can carry.\<close>

definition wire_peer :: "peer \<Rightarrow> bool" where
  "wire_peer p = (is_dotted_quad (ip p) \<and> port p \<le> 65535 \<and> is_wire_identity (peer.peerID p))"

text \<open>A peer entry on the wire carries these three fields of the peer.\<close>

definition wire_fields :: "peer \<Rightarrow> peer" where
  "wire_fields p =
     \<lparr>ip = ip p, port = port p, peerID = peer.peerID p, peer.senderName = None, lastSeen = None\<rparr>"

text \<open>
  Values of JSON, and a stand-in for the two functions of the platform that agrees with
  them on the self-description of a sample node and its text; the concrete instances
  read nothing else from them.
\<close>

datatype json = JString string | JNumber nat | JObject "(string \<times> json) list"

definition sample_selfInfo :: json where
  "sample_selfInfo =
     JObject [(''senderName'', JString ''peer2''), (''ip'', JString ''127.0.0.1''),
              (''port'', JNumber 5000), (''peerID'', JString ''3fa9'')]"

definition sample_text :: string where
  \<open>sample_text = ''{"senderName":"peer2","ip":"127.0.0.1","port":5000,"peerID":"3fa9"}''\<close>

definition sample_stringify :: "json \<Rightarrow> string option" where
  "sample_stringify v = (if v = sample_selfInfo then Some sample_text else None)"

definition sample_parse :: "string \<Rightarrow> json option" where
  "sample_parse s = (if s = sample_text then Some sample_selfInfo else None)"

text \<open>
  An identity under which a cycle stores no number: an inherited name with no count.
\<close>

definition inert :: "missed_counts \<Rightarrow> string \<Rightarrow> bool" where
  "inert mc k = (mc k = None \<and> inherited_name k)"

text \<open>The count of an identity after the increment of a cycle.\<close>

definition bump :: "nat option \<Rightarrow> nat" where
  "bump v = (case v of None \<Rightarrow> 1 | Some n \<Rightarrow> n + 1)"


text \<open>Sample values for the concrete instances below.\<close>

definition sample_peer :: "string \<Rightarrow> nat \<Rightarrow> peer" where
  "sample_peer pid t =
     \<lparr>ip = ''127.0.0.1'', port = 5000, peerID = pid, peer.senderName = Some ''peer'',
      lastSeen = Some t\<rparr>"

definition sample_table :: routing_table where
  "sample_table =
     \<lparr>peerID = ''0000'', kBuckets = (replicate 16 [])[14 := [sample_peer ''0003'' 5]]\<rparr>"

definition tie_table :: routing_table where
  "tie_table =
     \<lparr>peerID = ''0005'', kBuckets = (replicate 16 [])[14 := [sample_peer ''0006'' 5]]\<rparr>"

section \<open>The bucket index\<close>

lemma toString2_length: "n < 16 \<Longrightarrow> length (toString2 n) \<le> 4"
proof -
  assume "n < 16"
  then have "n \<in> {0..<16}" by simp
  then show ?thesis
    unfolding atLeastLessThan_upt
    by (simp add: toString2.simps)
qed

lemma parseInt16_bound: "parseInt16 c = Some n \<Longrightarrow> n < 16"
  by (auto simp: parseInt16_def Let_def split: if_splits)

lemma length_padded: "length (padStart (numToString2 (parseInt16 c)) 4 CHR ''0'') = 4"
proof (cases "parseInt16 c")
  case None
  then show ?thesis by (simp add: padStart_def numToString2_def)
next
  case (Some n)
  then have "length (toString2 n) \<le> 4" using parseInt16_bound toString2_length by blast
  with Some show ?thesis by (simp add: padStart_def numToString2_def)
qed

lemma length_Hex2Bin: "length (Hex2Bin s) = 4 * length s"
  unfolding Hex2Bin_def
  by (induction s) (simp_all add: length_padded)

lemma length_XORing: "length (XORing a b) = length a"
  by (induction a b rule: XORing.induct) simp_all

lemma indexOf_upper: "indexOf xs c < int (length xs)"
  by (induction xs) (simp_all add: Let_def)

lemma XORing_self: "XORing a a = replicate (length a) CHR ''0''"
  by (induction a) simp_all

lemma indexOf_absent: "c \<notin> set xs \<Longrightarrow> indexOf xs c = - 1"
  by (induction xs) (auto simp: Let_def)

lemma getBucketIndex_kBuckets [simp]:
  "getBucketIndex (this\<lparr>kBuckets := bs\<rparr>) pid = getBucketIndex this pid"
  by (simp add: getBucketIndex_def)

lemma indexOf_lower: "- 1 \<le> indexOf xs c"
  by (induction xs) (simp_all add: Let_def)

lemma getBucketIndex_nonneg: "0 \<le> getBucketIndex this pid"
  using indexOf_lower [of "XORing (Hex2Bin (peerID this)) (Hex2Bin pid)" "CHR ''1''"]
  by (simp add: getBucketIndex_def Let_def)

lemma getBucketIndex_less:
  "peerID this \<noteq> [] \<Longrightarrow> getBucketIndex this pid < 4 * int (length (peerID this))"
  using indexOf_upper [of "XORing (Hex2Bin (peerID this)) (Hex2Bin pid)" "CHR ''1''"]
  by (auto simp add: getBucketIndex_def Let_def length_XORing length_Hex2Bin)

lemma getBucketIndex_self: "getBucketIndex this (peerID this) = 0"
  by (simp add: getBucketIndex_def Let_def XORing_self indexOf_absent)

text \<open>
  C7. For two 16-bit identities the bucket index lies between 0 and 15; it is a function
  of the local identity and the peer's identity alone (the contents of the buckets do
  not enter it), and the index of the local identity itself is 0.
\<close>

theorem getBucketIndex_deterministic:
  assumes "is_identity (peerID this)" and "is_identity pid"
  shows "0 \<le> getBucketIndex this pid \<and> getBucketIndex this pid \<le> 15
       \<and> getBucketIndex (this\<lparr>kBuckets := bs\<rparr>) pid = getBucketIndex this pid
       \<and> getBucketIndex this (peerID this) = 0"
proof -
  have len: "length (peerID this) = 4" using assms(1) by (simp add: is_identity_def)
  then have "peerID this \<noteq> []" by auto
  from getBucketIndex_less [OF this, of pid] len have "getBucketIndex this pid \<le> 15" by simp
  moreover have "getBucketIndex (this\<lparr>kBuckets := bs\<rparr>) pid = getBucketIndex this pid"
    by (simp add: getBucketIndex_def)
  ultimately show ?thesis using getBucketIndex_nonneg getBucketIndex_self by simp
qed

theorem getBucketIndex_deterministic_witness:
  "is_identity ''3fa9'' \<and> is_identity ''3c00''
   \<and> getBucketIndex (new_RoutingTable ''3fa9'') ''3c00'' = 6
   \<and> getBucketIndex (new_RoutingTable ''3fa9'') ''3fa9'' = 0"
proof -
  have a: "is_identity (peerID (new_RoutingTable ''3fa9''))"
    by (simp add: is_identity_def new_RoutingTable_def parseInt16_def)
  have b: "is_identity ''3c00''"
    by (simp add: is_identity_def parseInt16_def)
  have c: "getBucketIndex (new_RoutingTable ''3fa9'') ''3c00'' = 6"
    by code_simp
  from getBucketIndex_deterministic [OF a b] a b c show ?thesis
    by (simp add: new_RoutingTable_def)
qed

section \<open>The distance is the exclusive-or\<close>

lemma xor_double:
  "(2 * m + of_bool p) XOR (2 * n + of_bool q) = 2 * (m XOR n) + of_bool (p \<noteq> q)"
  for m n :: nat
  by (subst xor_rec) (simp add: add.commute)

lemma XORing_binary: "list_all binary_digit (XORing x y)"
  by (induction x y rule: XORing.induct) (simp_all add: binary_digit_def)

lemma binary_value_Cons:
  "binary_value a (c # s) = binary_value (2 * a + of_bool (c = CHR ''1'')) s"
  by (simp add: binary_value_def)

lemma binary_value_append: "binary_value a (x @ y) = binary_value (binary_value a x) y"
  by (simp add: binary_value_def)

lemma binary_value_XORing:
  assumes "length x = length y" and "list_all binary_digit x" and "list_all binary_digit y"
  shows "binary_value (a XOR b) (XORing x y) = binary_value a x XOR binary_value b y"
  using assms
proof (induction x y arbitrary: a b rule: list_induct2)
  case Nil
  then show ?case by (simp add: binary_value_def)
next
  case (Cons c x d y)
  have bc: "binary_digit c" and bd: "binary_digit d" using Cons.prems by simp_all
  have rest: "list_all binary_digit x" "list_all binary_digit y" using Cons.prems by simp_all
  have ne: "((c = CHR ''1'') \<noteq> (d = CHR ''1'')) = (c \<noteq> d)"
    using bc bd by (auto simp: binary_digit_def)
  have head: "(if c = d then CHR ''0'' else CHR ''1'') = CHR ''1'' \<longleftrightarrow> c \<noteq> d" by simp
  have "binary_value (a XOR b) (XORing (c # x) (d # y))
        = binary_value (2 * (a XOR b) + of_bool (c \<noteq> d)) (XORing x y)"
    by (simp add: binary_value_Cons)
  also have "2 * (a XOR b) + of_bool (c \<noteq> d)
        = (2 * a + of_bool (c = CHR ''1'')) XOR (2 * b + of_bool (d = CHR ''1''))"
    unfolding xor_double ne by (rule refl)
  also have "binary_value \<dots> (XORing x y)
        = binary_value (2 * a + of_bool (c = CHR ''1'')) x
          XOR binary_value (2 * b + of_bool (d = CHR ''1'')) y"
    by (rule Cons.IH [OF rest])
  finally show ?case by (simp only: binary_value_Cons)
qed

lemma binary_value_shift: "binary_value a s = a * 2 ^ length s + binary_value 0 s"
proof (induction s arbitrary: a)
  case Nil
  then show ?case by (simp add: binary_value_def)
next
  case (Cons c s)
  define b :: nat where "b = (if c = CHR ''1'' then 1 else 0)"
  have "binary_value a (c # s) = binary_value (2 * a + b) s"
    by (simp add: binary_value_def b_def)
  also have "\<dots> = (2 * a + b) * 2 ^ length s + binary_value 0 s"
    by (rule Cons.IH)
  also have "\<dots> = a * 2 ^ length (c # s) + (b * 2 ^ length s + binary_value 0 s)"
    by (simp add: algebra_simps)
  also have "b * 2 ^ length s + binary_value 0 s = binary_value b s"
    by (rule Cons.IH [symmetric])
  also have "binary_value b s = binary_value 0 (c # s)"
    by (simp add: binary_value_def b_def)
  finally show ?case .
qed

lemma chunks_checked:
  "list_all (\<lambda>n. list_all binary_digit (padStart (toString2 n) 4 CHR ''0'')
                  \<and> binary_value 0 (padStart (toString2 n) 4 CHR ''0'') = n
                  \<and> length (padStart (toString2 n) 4 CHR ''0'') = 4) [0..<16]"
  by code_simp

lemma chunk_value:
  assumes "n < 16"
  shows "list_all binary_digit (padStart (toString2 n) 4 CHR ''0'')
       \<and> binary_value a (padStart (toString2 n) 4 CHR ''0'') = 16 * a + n
       \<and> length (padStart (toString2 n) 4 CHR ''0'') = 4"
proof -
  from assms have "n \<in> set [0..<16]" by simp
  with chunks_checked have c: "list_all binary_digit (padStart (toString2 n) 4 CHR ''0'')"
    "binary_value 0 (padStart (toString2 n) 4 CHR ''0'') = n"
    "length (padStart (toString2 n) 4 CHR ''0'') = 4"
    unfolding list_all_iff by blast+
  from binary_value_shift [of a "padStart (toString2 n) 4 CHR ''0''"] c
  show ?thesis by simp
qed

lemma Hex2Bin_value:
  assumes "list_all (\<lambda>c. parseInt16 c \<noteq> None) s"
  shows "list_all binary_digit (Hex2Bin s)
       \<and> binary_value a (Hex2Bin s)
           = foldl (\<lambda>acc c. 16 * acc + (case parseInt16 c of None \<Rightarrow> 0 | Some n \<Rightarrow> n)) a s"
  using assms
proof (induction s arbitrary: a)
  case Nil
  then show ?case by (simp add: Hex2Bin_def binary_value_def)
next
  case (Cons c s)
  from Cons.prems obtain n where n: "parseInt16 c = Some n" by auto
  have rest: "list_all (\<lambda>c. parseInt16 c \<noteq> None) s" using Cons.prems by simp
  have unf: "Hex2Bin (c # s) = padStart (toString2 n) 4 CHR ''0'' @ Hex2Bin s"
    by (simp add: Hex2Bin_def numToString2_def n)
  from chunk_value [OF parseInt16_bound [OF n]] Cons.IH [OF rest] n
  show ?case unfolding unf by (simp add: binary_value_append)
qed

lemma parseInt2_binary:
  assumes "s \<noteq> []" and "list_all binary_digit s"
  shows "parseInt2 s = Some (binary_value 0 s)"
proof -
  have tw: "takeWhile (\<lambda>c. c = CHR ''0'' \<or> c = CHR ''1'') s = s"
    using assms(2) by (simp add: takeWhile_eq_all_conv list_all_iff binary_digit_def)
  show ?thesis unfolding parseInt2_def binary_value_def Let_def tw using assms(1) by simp
qed

lemma length_Hex2Bin_identity: "is_identity s \<Longrightarrow> length (Hex2Bin s) = 16"
proof -
  assume a: "is_identity s"
  then have h: "list_all (\<lambda>c. parseInt16 c \<noteq> None) s" and l: "length s = 4"
    by (simp_all add: is_identity_def)
  from l obtain c1 c2 c3 c4 where s: "s = [c1, c2, c3, c4]"
    by (auto simp: length_Suc_conv numeral_eq_Suc)
  from h s obtain n1 n2 n3 n4 where n: "parseInt16 c1 = Some n1" "parseInt16 c2 = Some n2"
    "parseInt16 c3 = Some n3" "parseInt16 c4 = Some n4" by auto
  have "\<And>n. n < 16 \<Longrightarrow> length (padStart (toString2 n) 4 CHR ''0'') = 4"
    using chunk_value by blast
  with n parseInt16_bound show ?thesis
    by (simp add: s Hex2Bin_def numToString2_def)
qed

lemma distance_is_xor:
  assumes "is_identity a" and "is_identity b"
  shows "distance a b = Some (xor_distance a b)"
proof -
  have ha: "list_all (\<lambda>c. parseInt16 c \<noteq> None) a" and hb: "list_all (\<lambda>c. parseInt16 c \<noteq> None) b"
    using assms by (simp_all add: is_identity_def)
  note va = Hex2Bin_value [OF ha, of 0] and vb = Hex2Bin_value [OF hb, of 0]
  have len: "length (Hex2Bin a) = length (Hex2Bin b)"
    using length_Hex2Bin_identity assms by simp
  have "length (XORing (Hex2Bin a) (Hex2Bin b)) = 16"
    using length_XORing length_Hex2Bin_identity [OF assms(1)] by simp
  then have ne: "XORing (Hex2Bin a) (Hex2Bin b) \<noteq> []" by auto
  have "parseInt2 (XORing (Hex2Bin a) (Hex2Bin b))
          = Some (binary_value (0 XOR 0) (XORing (Hex2Bin a) (Hex2Bin b)))"
    using parseInt2_binary [OF ne XORing_binary] by simp
  also have "binary_value (0 XOR 0) (XORing (Hex2Bin a) (Hex2Bin b))
          = binary_value 0 (Hex2Bin a) XOR binary_value 0 (Hex2Bin b)"
    using va vb by (intro binary_value_XORing [OF len]) simp_all
  finally show ?thesis using va vb
    by (simp add: distance_def xor_distance_def identity_value_def)
qed

section \<open>The tie-break of \<open>pushBucket\<close>\<close>

lemma comparePeerDistance_iff:
  "comparePeerDistance this e c \<longleftrightarrow>
     js_lt (distance (peerID this) (peer.peerID c)) (distance (peerID this) (peer.peerID e))
     \<or> (js_eq (distance (peerID this) (peer.peerID c)) (distance (peerID this) (peer.peerID e))
        \<and> js_gt (lastSeen c) (lastSeen e))"
  by (auto simp: comparePeerDistance_def distance_def Let_def)

text \<open>
  C2. The local identity, the incumbent \<open>e\<close> of a bucket and the candidate \<open>c\<close> for the
  same bucket have 16-bit identities; \<open>d1\<close> and \<open>d2\<close> are the distances of \<open>e\<close> and of
  \<open>c\<close> from the local identity, the exclusive-or of the numbers that the identities
  write, and \<open>t1\<close> and \<open>t2\<close> are the times they were last seen. Then \<open>pushBucket\<close> puts
  \<open>c\<close> in place of \<open>e\<close> if \<open>d2 < d1\<close>, or \<open>d2 = d1\<close> and \<open>t2 > t1\<close>, and returns the
  table as it was in every other case.
\<close>

theorem pushBucket_tie_break:
  assumes "is_identity (peerID this)"
    and "is_identity (peer.peerID e)" and "lastSeen e = Some t1"
    and "is_identity (peer.peerID c)" and "lastSeen c = Some t2"
    and "getBucketIndex this (peer.peerID c) = int i" and "i < length (kBuckets this)"
    and "kBuckets this ! i = [e]"
    and "d1 = xor_distance (peerID this) (peer.peerID e)"
    and "d2 = xor_distance (peerID this) (peer.peerID c)"
  shows "pushBucket now this c =
           Inr (if d2 < d1 \<or> (d2 = d1 \<and> t2 > t1)
                then this\<lparr>kBuckets := (kBuckets this)[i := [c]]\<rparr>
                else this)"
proof -
  have de: "distance (peerID this) (peer.peerID e) = Some d1"
    using distance_is_xor [OF assms(1,2)] assms(9) by simp
  have dc: "distance (peerID this) (peer.peerID c) = Some d2"
    using distance_is_xor [OF assms(1,4)] assms(10) by simp
  have ne: "peer.peerID c \<noteq> []" using assms(4) by (auto simp: is_identity_def)
  show ?thesis
    using ne assms(3,5,6,7,8) de dc
    by (auto simp: pushBucket_def Let_def comparePeerDistance_iff)
qed

lemma identity_samples:
  "is_identity ''0005''" "is_identity ''0006''" "is_identity ''0007''"
  by (simp_all add: is_identity_def parseInt16_def)

lemma xor_samples:
  "xor_distance ''0005'' ''0006'' = 3" "xor_distance ''0005'' ''0007'' = 2"
  by (simp_all add: xor_distance_def identity_value_def parseInt16_def)

lemma index_samples:
  "getBucketIndex tie_table ''0006'' = int 14" "getBucketIndex tie_table ''0007'' = int 14"
  by code_simp+

text \<open>
  Four instances on a table of the node \<open>0005\<close>: a closer candidate, an equally close
  one seen later, an equally close one seen at the same time, a farther one seen later.
\<close>

theorem pushBucket_tie_break_witness:
  "pushBucket 9 tie_table (sample_peer ''0007'' 1) =
     Inr (tie_table\<lparr>kBuckets := (kBuckets tie_table)[14 := [sample_peer ''0007'' 1]]\<rparr>)
   \<and> pushBucket 9 tie_table (sample_peer ''0006'' 8) =
     Inr (tie_table\<lparr>kBuckets := (kBuckets tie_table)[14 := [sample_peer ''0006'' 8]]\<rparr>)
   \<and> pushBucket 9 tie_table (sample_peer ''0006'' 5) = Inr tie_table
   \<and> pushBucket 9 (tie_table\<lparr>kBuckets := (kBuckets tie_table)[14 := [sample_peer ''0007'' 5]]\<rparr>)
        (sample_peer ''0006'' 8) =
     Inr (tie_table\<lparr>kBuckets := (kBuckets tie_table)[14 := [sample_peer ''0007'' 5]]\<rparr>)
   \<and> xor_distance ''0005'' ''0006'' = 3 \<and> xor_distance ''0005'' ''0007'' = 2"
proof -
  define other where
    "other = tie_table\<lparr>kBuckets := (kBuckets tie_table)[14 := [sample_peer ''0007'' 5]]\<rparr>"
  have l: "is_identity (peerID tie_table)" "is_identity (peerID other)"
    by (simp_all add: tie_table_def other_def identity_samples)
  have p: "\<And>t. is_identity (peer.peerID (sample_peer ''0006'' t))"
    "\<And>t. is_identity (peer.peerID (sample_peer ''0007'' t))"
    "\<And>s t. lastSeen (sample_peer s t) = Some t"
    by (simp_all add: sample_peer_def identity_samples)
  have i: "\<And>t. getBucketIndex tie_table (peer.peerID (sample_peer ''0006'' t)) = int 14"
    "\<And>t. getBucketIndex tie_table (peer.peerID (sample_peer ''0007'' t)) = int 14"
    "\<And>t. getBucketIndex other (peer.peerID (sample_peer ''0006'' t)) = int 14"
    by (simp_all add: sample_peer_def index_samples other_def)
  have b: "14 < length (kBuckets tie_table)" "kBuckets tie_table ! 14 = [sample_peer ''0006'' 5]"
    "14 < length (kBuckets other)" "kBuckets other ! 14 = [sample_peer ''0007'' 5]"
    by (simp_all add: tie_table_def other_def)
  have d: "\<And>t. xor_distance (peerID tie_table) (peer.peerID (sample_peer ''0006'' t)) = 3"
    "\<And>t. xor_distance (peerID tie_table) (peer.peerID (sample_peer ''0007'' t)) = 2"
    "\<And>t. xor_distance (peerID other) (peer.peerID (sample_peer ''0006'' t)) = 3"
    "\<And>t. xor_distance (peerID other) (peer.peerID (sample_peer ''0007'' t)) = 2"
    by (simp_all add: tie_table_def other_def sample_peer_def xor_samples)
  have closer: "pushBucket 9 tie_table (sample_peer ''0007'' 1) =
     Inr (tie_table\<lparr>kBuckets := (kBuckets tie_table)[14 := [sample_peer ''0007'' 1]]\<rparr>)"
    using pushBucket_tie_break [where this = tie_table and e = "sample_peer ''0006'' 5"
        and c = "sample_peer ''0007'' 1" and i = 14 and now = 9 and ?t1.0 = 5 and ?t2.0 = 1,
        OF l(1) p(1) p(3) p(2) p(3) i(2) b(1) b(2) refl refl]
    by (simp add: d)
  have newer: "pushBucket 9 tie_table (sample_peer ''0006'' 8) =
     Inr (tie_table\<lparr>kBuckets := (kBuckets tie_table)[14 := [sample_peer ''0006'' 8]]\<rparr>)"
    using pushBucket_tie_break [where this = tie_table and e = "sample_peer ''0006'' 5"
        and c = "sample_peer ''0006'' 8" and i = 14 and now = 9 and ?t1.0 = 5 and ?t2.0 = 8,
        OF l(1) p(1) p(3) p(1) p(3) i(1) b(1) b(2) refl refl]
    by (simp add: d)
  have same: "pushBucket 9 tie_table (sample_peer ''0006'' 5) = Inr tie_table"
    using pushBucket_tie_break [where this = tie_table and e = "sample_peer ''0006'' 5"
        and c = "sample_peer ''0006'' 5" and i = 14 and now = 9 and ?t1.0 = 5 and ?t2.0 = 5,
        OF l(1) p(1) p(3) p(1) p(3) i(1) b(1) b(2) refl refl]
    by (simp add: d)
  have farther: "pushBucket 9 other (sample_peer ''0006'' 8) = Inr other"
    using pushBucket_tie_break [where this = other and e = "sample_peer ''0007'' 5"
        and c = "sample_peer ''0006'' 8" and i = 14 and now = 9 and ?t1.0 = 5 and ?t2.0 = 8,
        OF l(2) p(2) p(3) p(1) p(3) i(3) b(3) b(4) refl refl]
    by (simp add: d)
  from closer newer same farther xor_samples show ?thesis
    unfolding other_def by simp
qed

section \<open>The invariant of the buckets\<close>

lemma well_placed_new: "well_placed (new_RoutingTable pid)"
  by (simp add: well_placed_def new_RoutingTable_def)

lemma well_placed_length: "well_placed this \<Longrightarrow> length (kBuckets this) = 16"
  unfolding well_placed_def by blast

lemma well_placed_one: "well_placed this \<Longrightarrow> i < 16 \<Longrightarrow> length (kBuckets this ! i) \<le> 1"
  unfolding well_placed_def by blast

lemma well_placed_index:
  "well_placed this \<Longrightarrow> i < 16 \<Longrightarrow> p \<in> set (kBuckets this ! i) \<Longrightarrow>
     getBucketIndex this (peer.peerID p) = int i"
  unfolding well_placed_def by blast

lemma well_placedI:
  assumes "length (kBuckets this) = 16"
    and "\<And>i. i < 16 \<Longrightarrow> length (kBuckets this ! i) \<le> 1"
    and "\<And>i p. i < 16 \<Longrightarrow> p \<in> set (kBuckets this ! i) \<Longrightarrow> getBucketIndex this (peer.peerID p) = int i"
  shows "well_placed this"
  unfolding well_placed_def using assms by blast

lemma well_placed_update:
  assumes "well_placed this" and "i < 16" and "length b \<le> 1"
    and "\<And>p. p \<in> set b \<Longrightarrow> getBucketIndex this (peer.peerID p) = int i"
  shows "well_placed (this\<lparr>kBuckets := (kBuckets this)[i := b]\<rparr>)"
proof (rule well_placedI)
  show "length (kBuckets (this\<lparr>kBuckets := (kBuckets this)[i := b]\<rparr>)) = 16"
    using well_placed_length [OF assms(1)] by simp
next
  fix j :: nat assume j: "j < 16"
  show "length (kBuckets (this\<lparr>kBuckets := (kBuckets this)[i := b]\<rparr>) ! j) \<le> 1"
    using well_placed_one [OF assms(1) j] well_placed_length [OF assms(1)] assms(2,3)
    by (cases "i = j") simp_all
next
  fix j :: nat and p assume j: "j < 16"
    and p: "p \<in> set (kBuckets (this\<lparr>kBuckets := (kBuckets this)[i := b]\<rparr>) ! j)"
  show "getBucketIndex (this\<lparr>kBuckets := (kBuckets this)[i := b]\<rparr>) (peer.peerID p) = int j"
  proof (cases "i = j")
    case True
    with p assms(2) well_placed_length [OF assms(1)] have "p \<in> set b" by simp
    with assms(4) True show ?thesis by simp
  next
    case False
    with p have "p \<in> set (kBuckets this ! j)" by simp
    with well_placed_index [OF assms(1) j] show ?thesis by simp
  qed
qed

lemma pushBucket_cases:
  assumes "pushBucket now this p = Inr that"
  obtains (same) "that = this"
  | (put) q where "peer.peerID q \<noteq> []" "peer.peerID q = peer.peerID p"
      "nat (getBucketIndex this (peer.peerID q)) < length (kBuckets this)"
      "that = this\<lparr>kBuckets := (kBuckets this)[nat (getBucketIndex this (peer.peerID q)) :=
                 q # tl (kBuckets this ! nat (getBucketIndex this (peer.peerID q)))]\<rparr>"
proof -
  define q where "q = (if lastSeen p = None then p\<lparr>lastSeen := Some now\<rparr> else p)"
  define i where "i = nat (getBucketIndex this (peer.peerID q))"
  have qp: "peer.peerID q = peer.peerID p" by (simp add: q_def)
  have unf: "pushBucket now this p =
     (if peer.peerID p = [] then Inr this
      else if getBucketIndex this (peer.peerID q) = -1 then Inr this
      else if \<not> i < length (kBuckets this) then Inl TypeError
      else (case kBuckets this ! i of
              [] \<Rightarrow> Inr (this\<lparr>kBuckets := (kBuckets this)[i := [q]]\<rparr>)
            | existingPeer # others \<Rightarrow>
                if comparePeerDistance this existingPeer q
                then Inr (this\<lparr>kBuckets := (kBuckets this)[i := q # others]\<rparr>)
                else Inr this))"
    unfolding pushBucket_def Let_def q_def i_def by (rule refl)
  show ?thesis
  proof (cases "that = this")
    case True
    then show ?thesis by (rule same)
  next
    case False
    have a: "peer.peerID p \<noteq> []" using assms False unf by (cases "peer.peerID p = []") simp_all
    have b: "i < length (kBuckets this)"
      using assms False unf a by (cases "i < length (kBuckets this)") (simp_all split: if_splits)
    have c: "that = this\<lparr>kBuckets := (kBuckets this)[i := q # tl (kBuckets this ! i)]\<rparr>"
    proof (cases "kBuckets this ! i")
      case Nil
      with assms False unf a b show ?thesis by (simp split: if_splits)
    next
      case (Cons e others)
      with assms False unf a b show ?thesis by (simp split: if_splits)
    qed
    show ?thesis
      using put [of q] a b c qp unfolding i_def by simp
  qed
qed

lemma well_placed_pushBucket:
  assumes "well_placed this" and "pushBucket now this p = Inr that"
  shows "well_placed that"
  using assms(2)
proof (cases rule: pushBucket_cases)
  case same
  with assms(1) show ?thesis by simp
next
  case (put q)
  define i where "i = nat (getBucketIndex this (peer.peerID q))"
  have i16: "i < 16" using put(3) well_placed_length [OF assms(1)] by (simp add: i_def)
  have qi: "getBucketIndex this (peer.peerID q) = int i"
    using getBucketIndex_nonneg [of this "peer.peerID q"] by (simp add: i_def)
  have "tl (kBuckets this ! i) = []"
    using well_placed_one [OF assms(1) i16] by (cases "kBuckets this ! i") simp_all
  then have "that = this\<lparr>kBuckets := (kBuckets this)[i := [q]]\<rparr>"
    using put(4) by (simp add: i_def)
  moreover have "well_placed (this\<lparr>kBuckets := (kBuckets this)[i := [q]]\<rparr>)"
    by (rule well_placed_update [OF assms(1) i16]) (simp_all add: qi)
  ultimately show ?thesis by simp
qed

lemma well_placed_removePeer:
  assumes "well_placed this"
  shows "well_placed (removePeer this pid)"
proof -
  define i where "i = nat (getBucketIndex this pid)"
  have len: "length (kBuckets this) = 16" by (rule well_placed_length [OF assms])
  show ?thesis
  proof (cases "i < 16")
    case True
    have a: "length (filter (\<lambda>p. peer.peerID p \<noteq> pid) (kBuckets this ! i)) \<le> 1"
      using well_placed_one [OF assms True]
        length_filter_le [of "\<lambda>p. peer.peerID p \<noteq> pid" "kBuckets this ! i"] by linarith
    have eq: "removePeer this pid =
            this\<lparr>kBuckets := (kBuckets this)[i := filter (\<lambda>p. peer.peerID p \<noteq> pid) (kBuckets this ! i)]\<rparr>"
      using True len getBucketIndex_nonneg [of this pid]
      by (simp add: removePeer_def Let_def i_def [symmetric])
    have "well_placed (this\<lparr>kBuckets := (kBuckets this)[i := filter (\<lambda>p. peer.peerID p \<noteq> pid) (kBuckets this ! i)]\<rparr>)"
    proof (rule well_placed_update [OF assms True a])
      fix p assume "p \<in> set (filter (\<lambda>p. peer.peerID p \<noteq> pid) (kBuckets this ! i))"
      then have "p \<in> set (kBuckets this ! i)" by simp
      then show "getBucketIndex this (peer.peerID p) = int i"
        by (rule well_placed_index [OF assms True])
    qed
    with eq show ?thesis by simp
  next
    case False
    then have "removePeer this pid = this" using len
      by (simp add: removePeer_def Let_def i_def [symmetric])
    then show ?thesis using assms by simp
  qed
qed

section \<open>The heartbeat cycle\<close>

lemma hasPeer_nth:
  "hasPeer this q \<longleftrightarrow> (\<exists>i < length (kBuckets this). \<exists>p \<in> set (kBuckets this ! i). peer.peerID p = q)"
  unfolding hasPeer_def list_ex_iff by (metis in_set_conv_nth)

lemma hasPeer_all: "hasPeer this q \<longleftrightarrow> q \<in> peer.peerID ` set (getAllPeers this)"
  unfolding hasPeer_def list_ex_iff getAllPeers_def by auto

lemma hasPeer_index:
  assumes "well_placed this" and "hasPeer this q"
  shows "nat (getBucketIndex this q) < 16 \<and>
         (\<exists>p \<in> set (kBuckets this ! nat (getBucketIndex this q)). peer.peerID p = q)"
proof -
  from assms(2) obtain i p where i: "i < length (kBuckets this)"
    and p: "p \<in> set (kBuckets this ! i)" "peer.peerID p = q"
    unfolding hasPeer_nth by blast
  from i have i16: "i < 16" using well_placed_length [OF assms(1)] by simp
  from well_placed_index [OF assms(1) i16 p(1)] p(2) have "getBucketIndex this q = int i" by simp
  with i16 p show ?thesis by auto
qed

lemma removePeer_eq:
  assumes "well_placed this"
  shows "removePeer this pid =
     (if nat (getBucketIndex this pid) < 16
      then this\<lparr>kBuckets := (kBuckets this)[nat (getBucketIndex this pid) :=
              filter (\<lambda>p. peer.peerID p \<noteq> pid) (kBuckets this ! nat (getBucketIndex this pid))]\<rparr>
      else this)"
  using well_placed_length [OF assms] getBucketIndex_nonneg [of this pid]
  by (simp add: removePeer_def Let_def)

lemma hasPeer_removePeer:
  assumes "well_placed this"
  shows "hasPeer (removePeer this pid) q \<longleftrightarrow> hasPeer this q \<and> q \<noteq> pid"
proof -
  define k where "k = nat (getBucketIndex this pid)"
  have len: "length (kBuckets this) = 16" by (rule well_placed_length [OF assms])
  show ?thesis
  proof (cases "k < 16")
    case False
    then have same: "removePeer this pid = this"
      using removePeer_eq [OF assms, of pid] by (simp add: k_def)
    have "\<not> hasPeer this pid" using hasPeer_index [OF assms, of pid] False by (auto simp: k_def)
    with same show ?thesis by auto
  next
    case True
    have eq: "kBuckets (removePeer this pid) =
        (kBuckets this)[k := filter (\<lambda>p. peer.peerID p \<noteq> pid) (kBuckets this ! k)]"
      using removePeer_eq [OF assms, of pid] True by (simp add: k_def)
    show ?thesis
    proof
      assume "hasPeer (removePeer this pid) q"
      then obtain i p where i: "i < 16"
        and p: "p \<in> set (kBuckets (removePeer this pid) ! i)" "peer.peerID p = q"
        unfolding hasPeer_nth using eq len by auto
      have old: "p \<in> set (kBuckets this ! i)"
        using p(1) eq len i by (cases "i = k") simp_all
      have "q \<noteq> pid"
      proof
        assume "q = pid"
        with well_placed_index [OF assms i old] p(2) have "i = k" by (simp add: k_def)
        with p eq len True \<open>q = pid\<close> show False by simp
      qed
      moreover have "hasPeer this q" unfolding hasPeer_nth using i old p(2) len by auto
      ultimately show "hasPeer this q \<and> q \<noteq> pid" by simp
    next
      assume a: "hasPeer this q \<and> q \<noteq> pid"
      then obtain i p where i: "i < 16"
        and p: "p \<in> set (kBuckets this ! i)" "peer.peerID p = q"
        unfolding hasPeer_nth using len by auto
      have "p \<in> set (kBuckets (removePeer this pid) ! i)"
        using p a eq len i by (cases "i = k") simp_all
      then show "hasPeer (removePeer this pid) q"
        unfolding hasPeer_nth using i p(2) eq len by auto
    qed
  qed
qed

lemma cyclePeer_eq:
  "cyclePeer st p =
     (if inert (snd st) (peer.peerID p) then st
      else if 3 \<le> bump (snd st (peer.peerID p))
      then (removePeer (fst st) (peer.peerID p), (snd st)(peer.peerID p := None))
      else (fst st, (snd st)(peer.peerID p \<mapsto> bump (snd st (peer.peerID p)))))"
  by (cases "snd st (peer.peerID p)") (simp_all add: cyclePeer_def Let_def bump_def inert_def)

lemma well_placed_cyclePeer:
  "well_placed (fst st) \<Longrightarrow> well_placed (fst (cyclePeer st p))"
  by (simp add: cyclePeer_eq well_placed_removePeer)

lemma well_placed_cycle_fold:
  "well_placed (fst st) \<Longrightarrow> well_placed (fst (foldl cyclePeer st ps))"
  by (induction ps arbitrary: st) (simp_all add: well_placed_cyclePeer)

lemma cyclePeer_other:
  assumes "well_placed (fst st)" and "peer.peerID p \<noteq> q"
  shows "hasPeer (fst (cyclePeer st p)) q = hasPeer (fst st) q"
    and "snd (cyclePeer st p) q = snd st q"
  using assms by (auto simp: cyclePeer_eq hasPeer_removePeer)

lemma cycle_fold_other:
  assumes "well_placed (fst st)" and "q \<notin> peer.peerID ` set ps"
  shows "hasPeer (fst (foldl cyclePeer st ps)) q = hasPeer (fst st) q
       \<and> snd (foldl cyclePeer st ps) q = snd st q"
  using assms
proof (induction ps arbitrary: st)
  case Nil
  then show ?case by simp
next
  case (Cons p ps)
  have ne: "peer.peerID p \<noteq> q" using Cons.prems(2) by auto
  have "q \<notin> peer.peerID ` set ps" using Cons.prems(2) by auto
  from Cons.IH [OF well_placed_cyclePeer [OF Cons.prems(1)] this, of p]
    cyclePeer_other [OF Cons.prems(1) ne]
  show ?case by simp
qed

lemma cyclePeer_self:
  assumes "well_placed (fst st)"
  shows "hasPeer (fst (cyclePeer st p)) (peer.peerID p) =
           (hasPeer (fst st) (peer.peerID p)
            \<and> (inert (snd st) (peer.peerID p) \<or> bump (snd st (peer.peerID p)) < 3))"
    and "snd (cyclePeer st p) (peer.peerID p) =
           (if inert (snd st) (peer.peerID p) \<or> 3 \<le> bump (snd st (peer.peerID p)) then None
            else Some (bump (snd st (peer.peerID p))))"
  using assms by (auto simp: cyclePeer_eq hasPeer_removePeer inert_def)

lemma cycle_fold_self:
  assumes "well_placed (fst st)" and "q \<in> peer.peerID ` set ps"
    and "distinct (map peer.peerID ps)"
  shows "hasPeer (fst (foldl cyclePeer st ps)) q =
           (hasPeer (fst st) q \<and> (inert (snd st) q \<or> bump (snd st q) < 3))
       \<and> snd (foldl cyclePeer st ps) q =
           (if inert (snd st) q \<or> 3 \<le> bump (snd st q) then None else Some (bump (snd st q)))"
  using assms
proof (induction ps arbitrary: st)
  case Nil
  then show ?case by simp
next
  case (Cons p ps)
  have wp: "well_placed (fst (cyclePeer st p))" by (rule well_placed_cyclePeer [OF Cons.prems(1)])
  have d: "distinct (map peer.peerID ps)" using Cons.prems(3) by simp
  show ?case
  proof (cases "peer.peerID p = q")
    case True
    then have "q \<notin> peer.peerID ` set ps" using Cons.prems(3) by auto
    from cycle_fold_other [OF wp this] cyclePeer_self [OF Cons.prems(1), of p] True
    show ?thesis by (auto simp: inert_def)
  next
    case False
    then have "q \<in> peer.peerID ` set ps" using Cons.prems(2) by auto
    from Cons.IH [OF wp this d] cyclePeer_other [OF Cons.prems(1) False]
    show ?thesis by (simp add: inert_def)
  qed
qed

lemma distinct_by_position:
  assumes "\<forall>i < length xs. length (xs ! i) \<le> 1 \<and> (\<forall>p \<in> set (xs ! i). g (f p) = i)"
  shows "distinct (map f (concat xs))"
  using assms
proof (induction xs rule: rev_induct)
  case Nil
  then show ?case by simp
next
  case (snoc b xs)
  have old: "\<forall>i < length xs. length (xs ! i) \<le> 1 \<and> (\<forall>p \<in> set (xs ! i). g (f p) = i)"
  proof (intro allI impI)
    fix i assume "i < length xs"
    with snoc.prems [rule_format, of i] show "length (xs ! i) \<le> 1 \<and> (\<forall>p \<in> set (xs ! i). g (f p) = i)"
      by (simp add: nth_append)
  qed
  have last: "length b \<le> 1 \<and> (\<forall>p \<in> set b. g (f p) = length xs)"
    using snoc.prems [rule_format, of "length xs"] by simp
  have db: "distinct (map f b)" using last by (cases b) simp_all
  have "f ` set (concat xs) \<inter> f ` set b = {}"
  proof (rule ccontr)
    assume "f ` set (concat xs) \<inter> f ` set b \<noteq> {}"
    then obtain p r where p: "p \<in> set (concat xs)" and r: "r \<in> set b" and e: "f p = f r" by auto
    from p obtain ys where "ys \<in> set xs" "p \<in> set ys" by auto
    then obtain i where i: "i < length xs" "p \<in> set (xs ! i)"
      by (metis in_set_conv_nth)
    with old have "g (f p) = i" by blast
    moreover from last r have "g (f r) = length xs" by blast
    ultimately show False using e i(1) by simp
  qed
  with snoc.IH [OF old] db show ?case by simp
qed

lemma distinct_getAllPeers:
  assumes "well_placed this"
  shows "distinct (map peer.peerID (getAllPeers this))"
  unfolding getAllPeers_def
proof (rule distinct_by_position [where g = "\<lambda>pid. nat (getBucketIndex this pid)"], intro allI impI)
  fix i assume "i < length (kBuckets this)"
  then have i: "i < 16" using well_placed_length [OF assms] by simp
  show "length (kBuckets this ! i) \<le> 1 \<and>
        (\<forall>p \<in> set (kBuckets this ! i). nat (getBucketIndex this (peer.peerID p)) = i)"
    using well_placed_one [OF assms i] well_placed_index [OF assms i] by simp
qed

lemma heartbeatCycle_peer:
  assumes "well_placed (fst st)"
  shows "well_placed (fst (heartbeatCycle st))"
    and "hasPeer (fst (heartbeatCycle st)) q =
           (hasPeer (fst st) q \<and> (inert (snd st) q \<or> bump (snd st q) < 3))"
    and "snd (heartbeatCycle st) q =
           (if hasPeer (fst st) q \<and> \<not> inert (snd st) q
            then (if 3 \<le> bump (snd st q) then None else Some (bump (snd st q)))
            else snd st q)"
proof -
  show "well_placed (fst (heartbeatCycle st))"
    unfolding heartbeatCycle_def by (rule well_placed_cycle_fold [OF assms])
  show "hasPeer (fst (heartbeatCycle st)) q =
           (hasPeer (fst st) q \<and> (inert (snd st) q \<or> bump (snd st q) < 3))"
  proof (cases "hasPeer (fst st) q")
    case True
    then have "q \<in> peer.peerID ` set (getAllPeers (fst st))" by (simp add: hasPeer_all)
    from cycle_fold_self [OF assms this distinct_getAllPeers [OF assms]]
    show ?thesis by (simp add: heartbeatCycle_def)
  next
    case False
    then have "q \<notin> peer.peerID ` set (getAllPeers (fst st))" by (simp add: hasPeer_all)
    from cycle_fold_other [OF assms this] False
    show ?thesis by (simp add: heartbeatCycle_def)
  qed
  show "snd (heartbeatCycle st) q =
           (if hasPeer (fst st) q \<and> \<not> inert (snd st) q
            then (if 3 \<le> bump (snd st q) then None else Some (bump (snd st q)))
            else snd st q)"
  proof (cases "hasPeer (fst st) q")
    case True
    then have "q \<in> peer.peerID ` set (getAllPeers (fst st))" by (simp add: hasPeer_all)
    from cycle_fold_self [OF assms this distinct_getAllPeers [OF assms]] True
    show ?thesis by (auto simp: heartbeatCycle_def inert_def)
  next
    case False
    then have "q \<notin> peer.peerID ` set (getAllPeers (fst st))" by (simp add: hasPeer_all)
    from cycle_fold_other [OF assms this] False
    show ?thesis by (simp add: heartbeatCycle_def)
  qed
qed

lemma peerID_removePeer [simp]: "peerID (removePeer this q) = peerID this"
  by (simp add: removePeer_def Let_def)





section \<open>Responses and runs\<close>

lemma touchBucket_length [simp]: "length (touchBucket now pid b) = length b"
  by (induction b) simp_all

lemma touchBucket_nth:
  "j < length b \<Longrightarrow> touchBucket now pid b ! j =
     (if peer.peerID (b ! j) = pid then (b ! j)\<lparr>lastSeen := Some now\<rparr> else b ! j)"
proof (induction b arbitrary: j)
  case Nil
  then show ?case by simp
next
  case (Cons p b)
  then show ?case by (cases j) simp_all
qed

lemma touchBucket_ids [simp]: "map peer.peerID (touchBucket now pid b) = map peer.peerID b"
  by (induction b) simp_all

lemma touchBuckets_length [simp]: "length (touchBuckets now pid bs) = length bs"
  by (induction bs) simp_all

lemma touchBuckets_nth:
  "i < length bs \<Longrightarrow> touchBuckets now pid bs ! i = touchBucket now pid (bs ! i)"
proof (induction bs arbitrary: i)
  case Nil
  then show ?case by simp
next
  case (Cons b bs)
  then show ?case by (cases i) simp_all
qed

lemma touchBucket_set_ids:
  "peer.peerID ` set (touchBucket now pid b) = peer.peerID ` set b"
  using touchBucket_ids [of now pid b] by (metis set_map)

lemma well_placed_touch:
  assumes "well_placed this"
  shows "well_placed (this\<lparr>kBuckets := touchBuckets now pid (kBuckets this)\<rparr>)"
proof (rule well_placedI)
  show "length (kBuckets (this\<lparr>kBuckets := touchBuckets now pid (kBuckets this)\<rparr>)) = 16"
    using well_placed_length [OF assms] by simp
next
  fix i :: nat assume i: "i < 16"
  then show "length (kBuckets (this\<lparr>kBuckets := touchBuckets now pid (kBuckets this)\<rparr>) ! i) \<le> 1"
    using well_placed_one [OF assms i] well_placed_length [OF assms]
    by (simp add: touchBuckets_nth)
next
  fix i :: nat and p assume i: "i < 16"
    and p: "p \<in> set (kBuckets (this\<lparr>kBuckets := touchBuckets now pid (kBuckets this)\<rparr>) ! i)"
  from p i have "p \<in> set (touchBucket now pid (kBuckets this ! i))"
    using well_placed_length [OF assms] by (simp add: touchBuckets_nth)
  then have "peer.peerID p \<in> peer.peerID ` set (kBuckets this ! i)"
    using touchBucket_set_ids [of now pid "kBuckets this ! i"] by blast
  then obtain r where "r \<in> set (kBuckets this ! i)" "peer.peerID r = peer.peerID p" by auto
  with well_placed_index [OF assms i, of r]
  show "getBucketIndex (this\<lparr>kBuckets := touchBuckets now pid (kBuckets this)\<rparr>) (peer.peerID p) = int i"
    by simp
qed



lemma step_Response:
  "step st (Response now pid) =
     ((fst st)\<lparr>kBuckets := touchBuckets now pid (kBuckets (fst st))\<rparr>, (snd st)(pid \<mapsto> 0))"
  by (simp add: handleHeartbeatResponse_def Let_def)

lemma well_placed_step:
  assumes "well_placed (fst st)"
  shows "well_placed (fst (step st e))"
proof (cases e)
  case Cycle
  then show ?thesis using heartbeatCycle_peer(1) [OF assms] by simp
next
  case (Response now pid)
  then show ?thesis using well_placed_touch [OF assms] by (simp only: step_Response fst_conv)
next
  case (Push now p)
  show ?thesis
  proof (cases "pushBucket now (fst st) p")
    case (Inl err)
    with Push assms show ?thesis by simp
  next
    case (Inr that)
    with Push well_placed_pushBucket [OF assms Inr] show ?thesis by simp
  qed
next
  case (Remove pid)
  then show ?thesis using well_placed_removePeer [OF assms] by simp
qed

lemma well_placed_run:
  "well_placed (fst st) \<Longrightarrow> well_placed (fst (run st es))"
  unfolding run_def
  by (induction es arbitrary: st) (simp_all add: well_placed_step)

lemma run_Nil [simp]: "run st [] = st"
  by (simp add: run_def)

lemma run_Cons [simp]: "run st (e # es) = run (step st e) es"
  by (simp add: run_def)


lemma cycles_Nil [simp]: "cycles [] = 0"
  by (simp add: cycles_def)

lemma cycles_Cons [simp]: "cycles (e # es) = (if e = Cycle then 1 else 0) + cycles es"
  by (simp add: cycles_def)






section \<open>Three missed heartbeats\<close>

lemma well_placed_sample: "well_placed sample_table"
proof -
  have "sample_table = (new_RoutingTable ''0000'')
          \<lparr>kBuckets := (kBuckets (new_RoutingTable ''0000''))[14 := [sample_peer ''0003'' 5]]\<rparr>"
    by (simp add: sample_table_def new_RoutingTable_def)
  moreover have "getBucketIndex (new_RoutingTable ''0000'') (peer.peerID (sample_peer ''0003'' 5)) = int 14"
    by code_simp
  ultimately show ?thesis
    using well_placed_update [OF well_placed_new, of 14 "[sample_peer ''0003'' 5]" "''0000''"]
    by simp
qed





section \<open>At most one record in a bucket\<close>

text \<open>
  C8. In every state that a run of events reaches from a fresh routing table (calls of
  \<open>pushBucket\<close> and \<open>removePeer\<close>, and heartbeat cycles and responses as well) there
  are sixteen buckets, each bucket holds at most one record, and two records with the
  same identity are in the same bucket.
\<close>

theorem buckets_hold_at_most_one:
  "length (kBuckets (fst (run (initial pid) es))) = 16
   \<and> (\<forall>i < 16. length (kBuckets (fst (run (initial pid) es)) ! i) \<le> 1)
   \<and> (\<forall>i < 16. \<forall>j < 16.
        \<forall>p \<in> set (kBuckets (fst (run (initial pid) es)) ! i).
        \<forall>q \<in> set (kBuckets (fst (run (initial pid) es)) ! j).
          peer.peerID p = peer.peerID q \<longrightarrow> i = j)"
proof -
  define this where "this = fst (run (initial pid) es)"
  have "well_placed (fst (initial pid))" by (simp add: initial_def well_placed_new)
  then have wp: "well_placed this" unfolding this_def by (rule well_placed_run)
  have "\<forall>i < 16. \<forall>j < 16. \<forall>p \<in> set (kBuckets this ! i). \<forall>q \<in> set (kBuckets this ! j).
          peer.peerID p = peer.peerID q \<longrightarrow> i = j"
  proof (intro allI impI ballI)
    fix i j p q
    assume i: "i < 16" and j: "j < 16" and p: "p \<in> set (kBuckets this ! i)"
      and q: "q \<in> set (kBuckets this ! j)" and e: "peer.peerID p = peer.peerID q"
    from well_placed_index [OF wp i p] well_placed_index [OF wp j q] e show "i = j" by simp
  qed
  with well_placed_length [OF wp] well_placed_one [OF wp] show ?thesis
    unfolding this_def by blast
qed

theorem buckets_hold_at_most_one_witness:
  "kBuckets (fst (run (initial ''0000'')
      [Push 1 (sample_peer ''0003'' 5), Push 2 (sample_peer ''0002'' 6), Push 3 (sample_peer ''8000'' 7),
       Remove ''8000''])) ! 14 = [sample_peer ''0002'' 6]
   \<and> length (kBuckets (fst (run (initial ''0000'')
      [Push 1 (sample_peer ''0003'' 5), Push 2 (sample_peer ''0002'' 6), Push 3 (sample_peer ''8000'' 7),
       Remove ''8000''])) ! 14) \<le> 1"
proof -
  have a: "kBuckets (fst (run (initial ''0000'')
      [Push 1 (sample_peer ''0003'' 5), Push 2 (sample_peer ''0002'' 6), Push 3 (sample_peer ''8000'' 7),
       Remove ''8000''])) ! 14 = [sample_peer ''0002'' 6]"
    by code_simp
  from buckets_hold_at_most_one [of "''0000''"
      "[Push 1 (sample_peer ''0003'' 5), Push 2 (sample_peer ''0002'' 6), Push 3 (sample_peer ''8000'' 7),
       Remove ''8000'']"] a
  show ?thesis by simp
qed

section \<open>The closest peer\<close>

lemma getClosestPeers_any_target: "getClosestPeers this a = getClosestPeers this b"
  by (simp add: getClosestPeers_def)

text \<open>
  C4. \<open>getClosestPeers\<close> does not return the peer closest to the target: in a table
  of the node \<open>0000\<close> that holds the peers \<open>0004\<close> and \<open>0001\<close>, the call for the target
  \<open>0004\<close> returns the peer \<open>0001\<close>, at distance 5 from the target, although the table
  holds the peer \<open>0004\<close>, at distance 0 from it.
\<close>

theorem getClosestPeers_ignores_target:
  "getClosestPeers (fst (run (initial ''0000'')
      [Push 1 (sample_peer ''0004'' 5), Push 2 (sample_peer ''0001'' 6)])) ''0004''
     = [sample_peer ''0001'' 6]
   \<and> hasPeer (fst (run (initial ''0000'')
      [Push 1 (sample_peer ''0004'' 5), Push 2 (sample_peer ''0001'' 6)])) ''0004''
   \<and> distance ''0004'' ''0004'' = Some 0
   \<and> distance ''0004'' ''0001'' = Some 5"
proof -
  have a: "getClosestPeers (fst (run (initial ''0000'')
      [Push 1 (sample_peer ''0004'' 5), Push 2 (sample_peer ''0001'' 6)])) ''0004''
     = [sample_peer ''0001'' 6]"
    by code_simp
  have b: "hasPeer (fst (run (initial ''0000'')
      [Push 1 (sample_peer ''0004'' 5), Push 2 (sample_peer ''0001'' 6)])) ''0004''"
    by code_simp
  have c: "distance ''0004'' ''0004'' = Some 0"
    by code_simp
  have d: "distance ''0004'' ''0001'' = Some 5"
    by code_simp
  from a b c d show ?thesis by blast
qed

section \<open>The effect of a heartbeat response\<close>

text \<open>
  C10. \<open>handleHeartbeatResponse\<close> sets the missed count of the identity to 0, and in
  the routing table it sets \<open>lastSeen\<close> to the current tick in every record with this
  identity; the local identity, the number of buckets, the length of every bucket and
  every other record stay as they are. (Without a global routing table only the count
  is set.)
\<close>

theorem handleHeartbeatResponse_frame:
  "(\<exists>that. handleHeartbeatResponse now pid (Some this, mc) = (Some that, mc(pid \<mapsto> 0))
      \<and> peerID that = peerID this
      \<and> length (kBuckets that) = length (kBuckets this)
      \<and> (\<forall>i < length (kBuckets this).
            length (kBuckets that ! i) = length (kBuckets this ! i)
          \<and> (\<forall>j < length (kBuckets this ! i).
                kBuckets that ! i ! j =
                  (if peer.peerID (kBuckets this ! i ! j) = pid
                   then (kBuckets this ! i ! j)\<lparr>lastSeen := Some now\<rparr>
                   else kBuckets this ! i ! j))))
   \<and> handleHeartbeatResponse now pid (None, mc) = (None, mc(pid \<mapsto> 0))"
proof -
  define that where "that = this\<lparr>kBuckets := touchBuckets now pid (kBuckets this)\<rparr>"
  have a: "handleHeartbeatResponse now pid (Some this, mc) = (Some that, mc(pid \<mapsto> 0))"
    by (simp add: handleHeartbeatResponse_def that_def)
  have b: "peerID that = peerID this" "length (kBuckets that) = length (kBuckets this)"
    by (simp_all add: that_def)
  have c: "\<forall>i < length (kBuckets this).
            length (kBuckets that ! i) = length (kBuckets this ! i)
          \<and> (\<forall>j < length (kBuckets this ! i).
                kBuckets that ! i ! j =
                  (if peer.peerID (kBuckets this ! i ! j) = pid
                   then (kBuckets this ! i ! j)\<lparr>lastSeen := Some now\<rparr>
                   else kBuckets this ! i ! j))"
    by (simp add: that_def touchBuckets_nth touchBucket_nth)
  have d: "handleHeartbeatResponse now pid (None, mc) = (None, mc(pid \<mapsto> 0))"
    by (simp add: handleHeartbeatResponse_def)
  from a b c d show ?thesis by blast
qed

theorem handleHeartbeatResponse_frame_witness:
  "handleHeartbeatResponse 9 ''0003'' (Some sample_table, Map.empty) =
     (Some (sample_table\<lparr>kBuckets := (kBuckets sample_table)[14 := [sample_peer ''0003'' 9]]\<rparr>),
      [''0003'' \<mapsto> 0])"
proof -
  from handleHeartbeatResponse_frame [of 9 "''0003''" sample_table Map.empty]
  obtain that where
    a: "handleHeartbeatResponse 9 ''0003'' (Some sample_table, Map.empty) = (Some that, [''0003'' \<mapsto> 0])"
    by blast
  have "fst (handleHeartbeatResponse 9 ''0003'' (Some sample_table, Map.empty)) =
     Some (sample_table\<lparr>kBuckets := (kBuckets sample_table)[14 := [sample_peer ''0003'' 9]]\<rparr>)"
    by code_simp
  with a show ?thesis by simp
qed

section \<open>The missed counts and the table\<close>

text \<open>
  C6, as stated, fails: a response for an identity that is not in the table creates an
  entry for it, and \<open>removePeer\<close> leaves the entry of the removed peer in place.
\<close>

theorem missed_entry_outside_table:
  "snd (run (initial ''0000'') [Response 7 ''abcd'']) ''abcd'' = Some 0
   \<and> \<not> hasPeer (fst (run (initial ''0000'') [Response 7 ''abcd''])) ''abcd''
   \<and> snd (run (initial ''0000'') [Push 1 (sample_peer ''0003'' 5), Cycle, Remove ''0003'']) ''0003'' = Some 1
   \<and> \<not> hasPeer (fst (run (initial ''0000'') [Push 1 (sample_peer ''0003'' 5), Cycle, Remove ''0003''])) ''0003''"
proof -
  have a: "snd (run (initial ''0000'') [Response 7 ''abcd'']) ''abcd'' = Some 0"
    by code_simp
  have b: "\<not> hasPeer (fst (run (initial ''0000'') [Response 7 ''abcd''])) ''abcd''"
    by code_simp
  have c: "snd (run (initial ''0000'') [Push 1 (sample_peer ''0003'' 5), Cycle, Remove ''0003'']) ''0003'' = Some 1"
    by code_simp
  have d: "\<not> hasPeer (fst (run (initial ''0000'') [Push 1 (sample_peer ''0003'' 5), Cycle, Remove ''0003''])) ''0003''"
    by code_simp
  from a b c d show ?thesis by blast
qed

text \<open>
  C6, amended. On a table with every record in its bucket, a heartbeat cycle keeps the
  missed counts within the table: if every entry belongs to an identity in the table
  before the cycle, so it does after it, and a peer that the cycle removes has no
  entry afterwards. A response sets the entry of its identity to 0, whether the identity
  is in the table or not, and \<open>removePeer\<close> leaves the missed counts as they are.
\<close>

theorem missed_entries_in_cycle:
  assumes "well_placed (fst st)"
  shows "((\<forall>q. snd st q \<noteq> None \<longrightarrow> hasPeer (fst st) q) \<longrightarrow>
            (\<forall>q. snd (step st Cycle) q \<noteq> None \<longrightarrow> hasPeer (fst (step st Cycle)) q))
       \<and> (hasPeer (fst st) pid \<and> \<not> hasPeer (fst (step st Cycle)) pid \<longrightarrow> snd (step st Cycle) pid = None)
       \<and> snd (step st (Response now pid)) = (snd st)(pid \<mapsto> 0)
       \<and> snd (step st (Remove pid)) = snd st"
proof -
  note hb = heartbeatCycle_peer(2,3) [OF assms]
  have a: "(\<forall>q. snd st q \<noteq> None \<longrightarrow> hasPeer (fst st) q) \<longrightarrow>
            (\<forall>q. snd (step st Cycle) q \<noteq> None \<longrightarrow> hasPeer (fst (step st Cycle)) q)"
  proof (intro impI allI)
    fix q
    assume inv: "\<forall>q. snd st q \<noteq> None \<longrightarrow> hasPeer (fst st) q"
      and e: "snd (step st Cycle) q \<noteq> None"
    show "hasPeer (fst (step st Cycle)) q"
    proof (cases "hasPeer (fst st) q \<and> \<not> inert (snd st) q")
      case True
      with e hb [of q] show ?thesis by (simp split: if_splits)
    next
      case False
      with e hb(2) [of q] have "snd st q \<noteq> None" by simp
      with inv have "hasPeer (fst st) q" and "\<not> inert (snd st) q" by (simp_all add: inert_def)
      with False show ?thesis by simp
    qed
  qed
  have b: "hasPeer (fst st) pid \<and> \<not> hasPeer (fst (step st Cycle)) pid \<longrightarrow> snd (step st Cycle) pid = None"
    using hb [of pid] by auto
  have c: "snd (step st (Response now pid)) = (snd st)(pid \<mapsto> 0)"
    by (simp add: step_Response del: step.simps)
  have d: "snd (step st (Remove pid)) = snd st" by simp
  from a b c d show ?thesis by blast
qed

theorem missed_entries_in_cycle_witness:
  "well_placed sample_table
   \<and> hasPeer sample_table ''0003''
   \<and> \<not> hasPeer (fst (step (sample_table, [''0003'' \<mapsto> 2]) Cycle)) ''0003''
   \<and> snd (step (sample_table, [''0003'' \<mapsto> 2]) Cycle) ''0003'' = None"
proof -
  have h: "well_placed (fst (sample_table, [''0003'' \<mapsto> (2::nat)]))"
    by (simp add: well_placed_sample)
  have a: "hasPeer sample_table ''0003''" by code_simp
  have b: "\<not> hasPeer (fst (step (sample_table, [''0003'' \<mapsto> 2]) Cycle)) ''0003''" by code_simp
  from missed_entries_in_cycle [OF h, of "''0003''" 0] a b well_placed_sample
  show ?thesis by simp
qed

section \<open>Decoding: the version byte\<close>

lemma drop_head: "0 < k \<Longrightarrow> drop k (v # rest) = drop (k - 1) rest"
  by (cases k) simp_all

lemma readUInt8_head: "0 < k \<Longrightarrow> readUInt8 (v # rest) k = readUInt8 (w # rest) k"
  by (simp add: readUInt8_def drop_head)

lemma readUInt16BE_head: "0 < k \<Longrightarrow> readUInt16BE (v # rest) k = readUInt16BE (w # rest) k"
  by (simp add: readUInt16BE_def drop_head)

lemma slice_head: "0 < k \<Longrightarrow> slice (v # rest) k m = slice (w # rest) k m"
  by (simp add: slice_def drop_head)

lemma decodePeers_head:
  "0 < off \<Longrightarrow> decodePeers (v # rest) n off = decodePeers (w # rest) n off"
proof (induction n arbitrary: off)
  case 0
  then show ?case by simp
next
  case (Suc n)
  have "decodePeers (v # rest) n (off + 8) = decodePeers (w # rest) n (off + 8)"
    by (rule Suc.IH) simp
  moreover have "readUInt16BE (v # rest) (off + 4) = readUInt16BE (w # rest) (off + 4)"
    by (rule readUInt16BE_head) simp
  moreover have "slice (v # rest) off (off + 4) = slice (w # rest) off (off + 4)"
    by (rule slice_head [OF Suc.prems])
  moreover have "slice (v # rest) (off + 6) (off + 8) = slice (w # rest) (off + 6) (off + 8)"
    by (rule slice_head) simp
  ultimately show ?case by (simp add: Let_def)
qed

lemma decodePeers_offset:
  "decodePeers buffer n off = Inr r \<Longrightarrow> snd r = off + 8 * n"
proof (induction n arbitrary: off r)
  case 0
  then show ?case by auto
next
  case (Suc n)
  from Suc.prems obtain port_num where "readUInt16BE buffer (off + 4) = Inr port_num"
    by (cases "readUInt16BE buffer (off + 4)") (simp_all add: Let_def)
  with Suc.prems obtain r' where r': "decodePeers buffer n (off + 8) = Inr r'" and "snd r = snd r'"
    by (cases "decodePeers buffer n (off + 8)") (auto simp: Let_def)
  with Suc.IH [OF r'] show ?case by simp
qed

lemma and_then_Inr_iff:
  "and_then x f = Inr y \<longleftrightarrow> (\<exists>a. x = Inr a \<and> f a = Inr y)"
  by (cases x) simp_all

lemma and_then_Inl_iff:
  "and_then x f = Inl e \<longleftrightarrow> x = Inl e \<or> (\<exists>a. x = Inr a \<and> f a = Inl e)"
  by (cases x) simp_all

text \<open>
  C9. \<open>decodeMessage\<close> does not look at the version: on two buffers that differ in
  byte 0 only, it fails on both with the same error, or it decodes both, and the two
  messages are the same in every field but \<open>version\<close>, which is the byte read.
\<close>

theorem version_not_checked:
  "decodeMessage JSON_parse (w # rest) =
     (case decodeMessage JSON_parse (v # rest) of
        Inl e \<Rightarrow> Inl e
      | Inr m \<Rightarrow> Inr (m\<lparr>version := unat w\<rparr>))"
proof -
  have r1: "readUInt8 (w # rest) (Suc 0) = readUInt8 (v # rest) (Suc 0)"
    and r2: "readUInt8 (w # rest) 2 = readUInt8 (v # rest) 2"
    and r3: "readUInt16BE (w # rest) 3 = readUInt16BE (v # rest) 3"
    by (simp_all add: readUInt8_head [of _ w rest v] readUInt16BE_head [of _ w rest v])
  have r0: "readUInt8 (w # rest) 0 = Inr (unat w)" "readUInt8 (v # rest) 0 = Inr (unat v)"
    by (simp_all add: readUInt8_def)
  have dp: "\<And>n. decodePeers (w # rest) n 5 = decodePeers (v # rest) n 5"
    by (rule decodePeers_head) simp
  show ?thesis
  proof (cases "readUInt8 (v # rest) (Suc 0)")
    case (Inl e)
    then show ?thesis by (simp add: decodeMessage_def r0 r1)
  next
    case mt: (Inr mtype)
    show ?thesis
    proof (cases "readUInt8 (v # rest) 2")
      case (Inl e)
      then show ?thesis by (simp add: decodeMessage_def r0 r1 r2 mt)
    next
      case np: (Inr npeers)
      show ?thesis
      proof (cases "readUInt16BE (v # rest) 3")
        case (Inl e)
        then show ?thesis by (simp add: decodeMessage_def r0 r1 r2 r3 mt np)
      next
        case nl: (Inr senderNameLength)
        show ?thesis
        proof (cases "decodePeers (v # rest) npeers 5")
          case (Inl e)
          then show ?thesis by (simp add: decodeMessage_def r0 r1 r2 r3 mt np nl dp)
        next
          case (Inr r)
          from decodePeers_offset [OF Inr] have off: "0 < snd r" by simp
          have s: "slice (w # rest) (snd r) (snd r + senderNameLength)
                 = slice (v # rest) (snd r) (snd r + senderNameLength)"
            by (rule slice_head [OF off])
          have d: "drop (snd r + senderNameLength) (w # rest)
                 = drop (snd r + senderNameLength) (v # rest)"
            using off by (simp add: drop_head)
          show ?thesis
            by (simp add: decodeMessage_def r0 r1 r2 r3 mt np nl dp Inr Let_def s d)
        qed
      qed
    qed
  qed
qed

section \<open>Decoding: buffers that are too short\<close>

lemma readUInt8_eq:
  "readUInt8 buffer k = (if k < length buffer then Inr (unat (buffer ! k)) else Inl RangeError)"
proof (cases "k < length buffer")
  case True
  then have "drop k buffer = buffer ! k # drop (Suc k) buffer" by (simp add: Cons_nth_drop_Suc)
  with True show ?thesis by (simp add: readUInt8_def)
next
  case False
  then show ?thesis by (simp add: readUInt8_def)
qed

lemma readUInt16BE_eq:
  "readUInt16BE buffer k =
     (if k + 2 \<le> length buffer then Inr (256 * unat (buffer ! k) + unat (buffer ! (k + 1)))
      else Inl RangeError)"
proof (cases "k + 2 \<le> length buffer")
  case True
  then have "drop k buffer = buffer ! k # buffer ! (k + 1) # drop (k + 2) buffer"
    by (simp add: Cons_nth_drop_Suc)
  with True show ?thesis by (simp add: readUInt16BE_def)
next
  case False
  show ?thesis
  proof (cases "k < length buffer")
    case True
    with False have "drop k buffer = [buffer ! k]"
      by (metis Cons_nth_drop_Suc Suc_leI add_2_eq_Suc' drop_all not_less_eq_eq)
    with False show ?thesis by (simp add: readUInt16BE_def)
  next
    case F: False
    with False show ?thesis by (simp add: readUInt16BE_def)
  qed
qed

lemma decodePeers_result:
  "(\<exists>r. decodePeers buffer n off = Inr r) = (n = 0 \<or> off + 8 * n \<le> length buffer + 2)"
  "decodePeers buffer n off = Inl e \<Longrightarrow> e = RangeError"
proof (induction n arbitrary: off e)
  case 0
  { case 1 show ?case by simp }
  { case 2 then show ?case by simp }
next
  case (Suc n)
  { case 1
    show ?case
    proof (cases "off + 6 \<le> length buffer")
      case False
      then show ?thesis by (simp add: readUInt16BE_eq)
    next
      case True
      then have "(\<exists>r. decodePeers buffer (Suc n) off = Inr r)
                 = (\<exists>r. decodePeers buffer n (off + 8) = Inr r)"
        by (cases "decodePeers buffer n (off + 8)") (simp_all add: readUInt16BE_eq Let_def)
      also have "\<dots> = (n = 0 \<or> off + 8 + 8 * n \<le> length buffer + 2)"
        by (rule Suc.IH(1))
      finally show ?thesis using True by auto
    qed }
  { case 2
    show ?case
    proof (cases "off + 6 \<le> length buffer")
      case False
      with 2 show ?thesis by (simp add: readUInt16BE_eq)
    next
      case True
      with 2 have "decodePeers buffer n (off + 8) = Inl e"
        by (cases "decodePeers buffer n (off + 8)") (simp_all add: readUInt16BE_eq Let_def)
      then show ?thesis by (rule Suc.IH(2))
    qed }
qed

text \<open>
  C5, amended. \<open>decodeMessage\<close> fails, and then with a \<open>RangeError\<close>, exactly when the
  buffer is shorter than the header of 5 bytes, or the count of peers is at least 1 and
  the buffer is shorter than 8 times the count plus 3, which is where the port of the
  last entry ends.
\<close>

theorem decodeMessage_fails_iff:
  "(decodeMessage JSON_parse buffer = Inl RangeError)
     = (length buffer < 5 \<or> (0 < unat (buffer ! 2) \<and> length buffer < 8 * unat (buffer ! 2) + 3))
   \<and> decodeMessage JSON_parse buffer \<noteq> Inl TypeError"
proof (cases "length buffer < 5")
  case True
  then have "decodeMessage JSON_parse buffer = Inl RangeError"
    by (simp add: decodeMessage_def readUInt8_eq readUInt16BE_eq)
  with True show ?thesis by simp
next
  case False
  define n where "n = unat (buffer ! 2)"
  show ?thesis
  proof (cases "decodePeers buffer n 5")
    case (Inl e)
    then have e: "e = RangeError" by (rule decodePeers_result(2))
    from Inl have "\<not> (\<exists>r. decodePeers buffer n 5 = Inr r)" by simp
    then have short: "0 < n \<and> length buffer < 8 * n + 3"
      unfolding decodePeers_result(1) by auto
    have ne: "buffer \<noteq> []" using False by auto
    have "decodeMessage JSON_parse buffer = Inl RangeError"
      using False Inl e ne by (simp add: decodeMessage_def readUInt8_eq readUInt16BE_eq n_def)
    with short show ?thesis by (simp add: n_def)
  next
    case (Inr r)
    then have "\<exists>r. decodePeers buffer n 5 = Inr r" by blast
    then have long: "n = 0 \<or> 8 * n + 3 \<le> length buffer"
      unfolding decodePeers_result(1) by auto
    have ne: "buffer \<noteq> []" using False by auto
    have "\<exists>m. decodeMessage JSON_parse buffer = Inr m"
      using False Inr ne by (simp add: decodeMessage_def readUInt8_eq readUInt16BE_eq n_def Let_def)
    with long False show ?thesis by (auto simp: n_def)
  qed
qed

text \<open>
  C5, as stated, fails: a buffer whose header announces a name of 5 bytes and which
  holds 2 of them is decoded, with the name cut short.
\<close>

theorem truncated_name_is_decoded:
  "decodeMessage sample_parse [18, 2, 0, 0, 5, 97, 98] =
     Inr \<lparr>version = 18, messageType = 2, numPeers = 0, senderName = ''ab'', peers = [],
          selfInfo = None\<rparr>
   \<and> length [18, 2, 0, 0, 5, 97, 98 :: byte] < 5 + 8 * 0 + 5"
proof -
  have "decodeMessage sample_parse [18, 2, 0, 0, 5, 97, 98] =
     Inr \<lparr>version = 18, messageType = 2, numPeers = 0, senderName = ''ab'', peers = [],
          selfInfo = None\<rparr>"
    by code_simp
  then show ?thesis by simp
qed

section \<open>Encoding and decoding\<close>

lemma unat_byte_of_nat: "n < 256 \<Longrightarrow> unat (of_nat n :: byte) = n"
  by (simp add: unat_of_nat)

lemma char_of_byte_of_char [simp]: "char_of_byte (byte_of_char c) = c"
proof -
  have "(of_char c :: nat) mod 256 = of_char c" by simp
  then have "(of_char c :: nat) < 256" by (metis mod_less_divisor zero_less_numeral)
  then show ?thesis by (simp add: char_of_byte_def byte_of_char_def unat_byte_of_nat)
qed

lemma toString_utf8_from [simp]: "toString_utf8 (Buffer_from_utf8 s) = s"
  by (induction s) (simp_all add: toString_utf8_def Buffer_from_utf8_def)

lemma length_Buffer_from_utf8 [simp]: "length (Buffer_from_utf8 s) = length s"
  by (simp add: Buffer_from_utf8_def)

lemma char_of_48: "char_of (48 :: nat) = CHR ''0''"
  by code_simp

lemma digit_char: "is_digit c \<Longrightarrow> char_of (48 + ((of_char c :: nat) - 48)) = c"
  by (simp add: is_digit_def)

lemma digit_less: "is_digit c \<Longrightarrow> (of_char c :: nat) - 48 < 10"
  by (auto simp: is_digit_def)

lemma digit_zero: "is_digit c \<Longrightarrow> (of_char c :: nat) - 48 = 0 \<Longrightarrow> c = CHR ''0''"
proof -
  assume a: "is_digit c" and b: "(of_char c :: nat) - 48 = 0"
  then have "(of_char c :: nat) = 48" by (simp add: is_digit_def)
  then have "char_of (of_char c :: nat) = char_of (48 :: nat)" by simp
  then show ?thesis by (simp add: char_of_48)
qed

lemma decimal_value_snoc:
  "decimal_value (w @ [c]) = 10 * decimal_value w + ((of_char c :: nat) - 48)"
  by (simp add: decimal_value_def)

lemma toString10_small: "n < 10 \<Longrightarrow> toString10 n = [char_of (48 + n)]"
  by (simp add: toString10.simps)

lemma toString10_large:
  "10 \<le> n \<Longrightarrow> toString10 n = toString10 (n div 10) @ [char_of (48 + n mod 10)]"
  by (subst toString10.simps) simp

lemma toString10_decimal:
  assumes "w \<noteq> []" and "list_all is_digit w" and "hd w \<noteq> CHR ''0''"
  shows "0 < decimal_value w \<and> toString10 (decimal_value w) = w"
  using assms
proof (induction w rule: rev_nonempty_induct)
  case (single c)
  then have d: "is_digit c" and nz: "c \<noteq> CHR ''0''" by simp_all
  have v: "decimal_value [c] = (of_char c :: nat) - 48" by (simp add: decimal_value_def)
  have "(of_char c :: nat) - 48 \<noteq> 0" using digit_zero [OF d] nz by blast
  then have "0 < (of_char c :: nat) - 48" by simp
  with v digit_less [OF d] digit_char [OF d] show ?case by (simp add: toString10_small)
next
  case (snoc c w)
  have d: "is_digit c" and dw: "list_all is_digit w" using snoc.prems(1) by simp_all
  have "hd w \<noteq> CHR ''0''" using snoc.prems(2) snoc.hyps by simp
  from snoc.IH [OF dw this] have pos: "0 < decimal_value w"
    and ih: "toString10 (decimal_value w) = w" by simp_all
  define n where "n = 10 * decimal_value w + ((of_char c :: nat) - 48)"
  have big: "10 \<le> n" using pos by (simp add: n_def)
  have "n div 10 = decimal_value w" and "n mod 10 = (of_char c :: nat) - 48"
    using digit_less [OF d] by (simp_all add: n_def)
  with toString10_large [OF big] ih digit_char [OF d] have "toString10 n = w @ [c]" by simp
  moreover have "0 < n" using big by simp
  ultimately show ?case by (simp only: decimal_value_snoc n_def [symmetric])
qed

lemma toString10_octet:
  assumes "is_octet_text w"
  shows "toString10 (unat (toUint8 (js_Number w))) = w"
proof -
  have d: "list_all is_digit w" and le: "decimal_value w \<le> 255" and ne: "w \<noteq> []"
    using assms by (simp_all add: is_octet_text_def)
  have u: "unat (toUint8 (js_Number w)) = decimal_value w"
    using d le by (simp add: js_Number_def toUint8_def unat_byte_of_nat)
  show ?thesis
  proof (cases "w = ''0''")
    case True
    then show ?thesis unfolding u by (simp add: decimal_value_def toString10_small char_of_48)
  next
    case False
    then have "hd w \<noteq> CHR ''0''" using assms by (simp add: is_octet_text_def)
    from toString10_decimal [OF ne d this] show ?thesis unfolding u by simp
  qed
qed

lemma split_nonempty: "split s c \<noteq> []"
  by (induction s) (simp_all split: list.splits)

lemma join_head: "join ((x # w) # ws) sep = x # join (w # ws) sep"
  by (cases ws) simp_all

lemma join_split: "join (split s c) [c] = s"
proof (induction s)
  case Nil
  then show ?case by simp
next
  case (Cons x s)
  obtain w ws where sp: "split s c = w # ws" using split_nonempty [of s c] by (cases "split s c") auto
  show ?case
  proof (cases "x = c")
    case True
    with sp Cons.IH show ?thesis by simp
  next
    case False
    with sp Cons.IH show ?thesis by (simp add: join_head)
  qed
qed

lemma ip_round_trip:
  assumes "is_dotted_quad s"
  shows "length (encodeIP s) = 4"
    and "join (map (\<lambda>b. toString10 (unat b)) (encodeIP s)) ''.'' = s"
proof -
  show "length (encodeIP s) = 4" by (simp add: encodeIP_def Let_def)
  from assms obtain a b c d where sp: "split s CHR ''.'' = [a, b, c, d]"
    by (auto simp: is_dotted_quad_def length_Suc_conv numeral_eq_Suc)
  with assms have o: "is_octet_text a" "is_octet_text b" "is_octet_text c" "is_octet_text d"
    by (simp_all add: is_dotted_quad_def)
  have "join (map (\<lambda>b. toString10 (unat b)) (encodeIP s)) ''.'' = join [a, b, c, d] ''.''"
    using o by (simp add: encodeIP_def Let_def sp toString10_octet)
  also have "\<dots> = s" using join_split [of s "CHR ''.''"] sp by simp
  finally show "join (map (\<lambda>b. toString10 (unat b)) (encodeIP s)) ''.'' = s" .
qed

lemma port_round_trip:
  assumes "p \<le> 65535"
  shows "encodePort p = Inr [of_nat (p div 256), of_nat (p mod 256)]"
    and "256 * unat (of_nat (p div 256) :: byte) + unat (of_nat (p mod 256) :: byte) = p"
proof -
  show "encodePort p = Inr [of_nat (p div 256), of_nat (p mod 256)]"
    using assms by (simp add: encodePort_def writeUInt16BE_def)
  have "p div 256 < 256" using assms by simp
  then show "256 * unat (of_nat (p div 256) :: byte) + unat (of_nat (p mod 256) :: byte) = p"
    by (simp add: unat_byte_of_nat)
qed

lemma hex_digits_checked:
  "list_all (\<lambda>c. case parseInt16 c of None \<Rightarrow> False | Some n \<Rightarrow> n < 16 \<and> hexDigit n = c)
     ''0123456789abcdef''"
  by code_simp

lemma hex_digit_round_trip:
  assumes "c \<in> set ''0123456789abcdef''"
  shows "\<exists>n < 16. parseInt16 c = Some n \<and> hexDigit n = c"
proof -
  from hex_digits_checked assms
  have "case parseInt16 c of None \<Rightarrow> False | Some n \<Rightarrow> n < 16 \<and> hexDigit n = c"
    unfolding list_all_iff by blast
  then show ?thesis by (cases "parseInt16 c") simp_all
qed

lemma hex_pair:
  assumes "x < 16" and "y < 16"
  shows "unat (of_nat (16 * x + y) :: byte) div 16 = x"
    and "unat (of_nat (16 * x + y) :: byte) mod 16 = y"
proof -
  have "16 * x + y < 256" using assms by simp
  then have "unat (of_nat (16 * x + y) :: byte) = 16 * x + y" by (rule unat_byte_of_nat)
  with assms show "unat (of_nat (16 * x + y) :: byte) div 16 = x"
    and "unat (of_nat (16 * x + y) :: byte) mod 16 = y" by simp_all
qed

lemma hex_round_trip:
  assumes "is_wire_identity s"
  shows "length (encodePeerID s) = 2" and "toString_hex (encodePeerID s) = s"
proof -
  from assms obtain a b c d where s: "s = [a, b, c, d]"
    by (auto simp: is_wire_identity_def length_Suc_conv numeral_eq_Suc)
  with assms have m: "a \<in> set ''0123456789abcdef''" "b \<in> set ''0123456789abcdef''"
    "c \<in> set ''0123456789abcdef''" "d \<in> set ''0123456789abcdef''"
    by (simp_all add: is_wire_identity_def)
  from hex_digit_round_trip [OF m(1)] obtain na where na: "na < 16" "parseInt16 a = Some na" "hexDigit na = a" by blast
  from hex_digit_round_trip [OF m(2)] obtain nb where nb: "nb < 16" "parseInt16 b = Some nb" "hexDigit nb = b" by blast
  from hex_digit_round_trip [OF m(3)] obtain nc where nc: "nc < 16" "parseInt16 c = Some nc" "hexDigit nc = c" by blast
  from hex_digit_round_trip [OF m(4)] obtain nd where nd: "nd < 16" "parseInt16 d = Some nd" "hexDigit nd = d" by blast
  define x where "x = (of_nat (16 * na + nb) :: byte)"
  define y where "y = (of_nat (16 * nc + nd) :: byte)"
  have e: "encodePeerID s = [x, y]"
    by (simp add: encodePeerID_def s na nb nc nd x_def y_def)
  then show "length (encodePeerID s) = 2" by simp
  have "unat x div 16 = na" "unat x mod 16 = nb" "unat y div 16 = nc" "unat y mod 16 = nd"
    unfolding x_def y_def
    using hex_pair [OF na(1) nb(1)] hex_pair [OF nc(1) nd(1)] by blast+
  then show "toString_hex (encodePeerID s) = s"
    unfolding e by (simp add: toString_hex_def na nb nc nd s)
qed

lemma encodePeerInfo_wire:
  assumes "wire_peer p"
  shows "\<exists>i0 i1 i2 i3 b0 b1 d0 d1.
           encodePeerInfo p = Inr [i0, i1, i2, i3, b0, b1, d0, d1]
         \<and> join (map (\<lambda>b. toString10 (unat b)) [i0, i1, i2, i3]) ''.'' = ip p
         \<and> 256 * unat b0 + unat b1 = port p
         \<and> toString_hex [d0, d1] = peer.peerID p"
proof -
  have q: "is_dotted_quad (ip p)" and pr: "port p \<le> 65535" and w: "is_wire_identity (peer.peerID p)"
    using assms by (simp_all add: wire_peer_def)
  from ip_round_trip(1) [OF q] obtain i0 i1 i2 i3 where i: "encodeIP (ip p) = [i0, i1, i2, i3]"
    by (auto simp: length_Suc_conv numeral_eq_Suc)
  from hex_round_trip(1) [OF w] obtain d0 d1 where d: "encodePeerID (peer.peerID p) = [d0, d1]"
    by (auto simp: length_Suc_conv numeral_eq_Suc)
  define b0 where "b0 = (of_nat (port p div 256) :: byte)"
  define b1 where "b1 = (of_nat (port p mod 256) :: byte)"
  have e: "encodePeerInfo p = Inr [i0, i1, i2, i3, b0, b1, d0, d1]"
    by (simp add: encodePeerInfo_def Let_def i d port_round_trip(1) [OF pr] b0_def b1_def)
  have "join (map (\<lambda>b. toString10 (unat b)) [i0, i1, i2, i3]) ''.'' = ip p"
    using ip_round_trip(2) [OF q] unfolding i .
  moreover have "256 * unat b0 + unat b1 = port p"
    unfolding b0_def b1_def by (rule port_round_trip(2) [OF pr])
  moreover have "toString_hex [d0, d1] = peer.peerID p"
    using hex_round_trip(2) [OF w] unfolding d .
  ultimately show ?thesis using e by blast
qed

lemma decodePeers_entry:
  assumes "buffer = pre @ [i0, i1, i2, i3, b0, b1, d0, d1] @ rest"
  shows "decodePeers buffer (Suc n) (length pre) =
           and_then (decodePeers buffer n (length pre + 8)) (\<lambda>r.
             Inr (\<lparr>ip = join (map (\<lambda>b. toString10 (unat b)) [i0, i1, i2, i3]) ''.'',
                   port = 256 * unat b0 + unat b1, peerID = toString_hex [d0, d1],
                   peer.senderName = None, lastSeen = None\<rparr> # fst r, snd r))"
proof -
  have a: "slice buffer (length pre) (length pre + 4) = [i0, i1, i2, i3]"
    by (simp add: slice_def assms)
  have b: "readUInt16BE buffer (length pre + 4) = Inr (256 * unat b0 + unat b1)"
    by (simp add: readUInt16BE_def assms)
  have c: "slice buffer (length pre + 6) (length pre + 8) = [d0, d1]"
    by (simp add: slice_def assms)
  show ?thesis by (simp add: a b c Let_def)
qed

lemma decodePeers_encoded:
  assumes "list_all wire_peer ps"
  shows "\<exists>bs. encodePeers ps = Inr bs \<and> length (concat bs) = 8 * length ps
            \<and> (\<forall>pre post. decodePeers (pre @ concat bs @ post) (length ps) (length pre)
                  = Inr (map wire_fields ps, length pre + 8 * length ps))"
  using assms
proof (induction ps)
  case Nil
  then show ?case by simp
next
  case (Cons p ps)
  from Cons.prems have wp: "wire_peer p" and rest: "list_all wire_peer ps" by simp_all
  from Cons.IH [OF rest] obtain bs where bs: "encodePeers ps = Inr bs"
    and len: "length (concat bs) = 8 * length ps"
    and dec: "\<And>pre post. decodePeers (pre @ concat bs @ post) (length ps) (length pre)
                  = Inr (map wire_fields ps, length pre + 8 * length ps)"
    by blast
  from encodePeerInfo_wire [OF wp] obtain i0 i1 i2 i3 b0 b1 d0 d1 where
    e: "encodePeerInfo p = Inr [i0, i1, i2, i3, b0, b1, d0, d1]"
    and f: "join (map (\<lambda>b. toString10 (unat b)) [i0, i1, i2, i3]) ''.'' = ip p"
       "256 * unat b0 + unat b1 = port p" "toString_hex [d0, d1] = peer.peerID p"
    by blast
  define entry where "entry = [i0, i1, i2, i3, b0, b1, d0, d1]"
  have enc: "encodePeers (p # ps) = Inr (entry # bs)" by (simp add: e bs entry_def)
  have l: "length (concat (entry # bs)) = 8 * length (p # ps)" by (simp add: len entry_def)
  have "decodePeers (pre @ concat (entry # bs) @ post) (length (p # ps)) (length pre)
          = Inr (map wire_fields (p # ps), length pre + 8 * length (p # ps))" for pre post
  proof -
    define buffer where "buffer = pre @ concat (entry # bs) @ post"
    have shape: "buffer = pre @ [i0, i1, i2, i3, b0, b1, d0, d1] @ (concat bs @ post)"
      by (simp add: buffer_def entry_def)
    have shape2: "buffer = (pre @ entry) @ concat bs @ post"
      by (simp add: buffer_def)
    have le: "length entry = 8" by (simp add: entry_def)
    have "decodePeers buffer (length ps) (length pre + 8)
            = Inr (map wire_fields ps, length pre + 8 + 8 * length ps)"
      using dec [of "pre @ entry" post] unfolding shape2 by (simp add: le)
    then have "decodePeers buffer (Suc (length ps)) (length pre)
            = Inr (wire_fields p # map wire_fields ps, length pre + 8 + 8 * length ps)"
      unfolding decodePeers_entry [OF shape] f by (simp add: wire_fields_def)
    then show ?thesis by (simp add: buffer_def)
  qed
  with enc l show ?case by blast
qed

lemma createHeader_bytes:
  assumes "mtype \<le> 255" and "n \<le> 255" and "length name \<le> 65535"
  shows "createHeader mtype n name =
           Inr [18, of_nat mtype, of_nat n, of_nat (length name div 256), of_nat (length name mod 256)]"
  using assms by (simp add: createHeader_def writeUInt8_def writeUInt16BE_def kPTP_VERSION_def)

lemma decode_created:
  assumes "mtype \<le> 255" and "length ps \<le> 255" and "length name \<le> 65535"
    and "list_all wire_peer ps"
  shows "\<exists>buffer. createMessage mtype name ps = Inr buffer
           \<and> (\<forall>extra. decodeMessage JSON_parse (buffer @ Buffer_from_utf8 extra) =
                 Inr \<lparr>version = 18, messageType = mtype, numPeers = length ps, senderName = name,
                      peers = map wire_fields ps,
                      selfInfo = (if extra = [] then None else JSON_parse extra)\<rparr>)"
proof -
  from decodePeers_encoded [OF assms(4)] obtain bs where bs: "encodePeers ps = Inr bs"
    and len: "length (concat bs) = 8 * length ps"
    and dec: "\<And>pre post. decodePeers (pre @ concat bs @ post) (length ps) (length pre)
                  = Inr (map wire_fields ps, length pre + 8 * length ps)"
    by blast
  define h3 where "h3 = (of_nat (length name div 256) :: byte)"
  define h4 where "h4 = (of_nat (length name mod 256) :: byte)"
  define t where "t = (of_nat mtype :: byte)"
  define c where "c = (of_nat (length ps) :: byte)"
  define header where "header = [18, t, c, h3, h4]"
  define buffer where "buffer = header @ concat bs @ Buffer_from_utf8 name"
  have cm: "createMessage mtype name ps = Inr buffer"
    using createHeader_bytes [OF assms(1,2,3)]
    by (simp add: createMessage_def Let_def bs buffer_def header_def t_def c_def h3_def h4_def)
  have ut: "unat t = mtype" and uc: "unat c = length ps"
    using assms(1,2) by (simp_all add: t_def c_def unat_byte_of_nat)
  have "length name div 256 < 256" using assms(3) by simp
  then have ul: "256 * unat h3 + unat h4 = length name"
    by (simp add: h3_def h4_def unat_byte_of_nat)
  have "decodeMessage JSON_parse (buffer @ Buffer_from_utf8 extra) =
          Inr \<lparr>version = 18, messageType = mtype, numPeers = length ps, senderName = name,
               peers = map wire_fields ps,
               selfInfo = (if extra = [] then None else JSON_parse extra)\<rparr>" for extra
  proof -
    define whole where "whole = buffer @ Buffer_from_utf8 extra"
    have w: "whole = 18 # t # c # h3 # h4 # concat bs @ Buffer_from_utf8 name @ Buffer_from_utf8 extra"
      by (simp add: whole_def buffer_def header_def)
    have r0: "readUInt8 whole 0 = Inr 18"
      by (simp add: readUInt8_def w)
    have r1: "readUInt8 whole (Suc 0) = Inr mtype"
      by (simp add: readUInt8_def w ut)
    have r2: "readUInt8 whole 2 = Inr (length ps)"
      by (simp add: readUInt8_def w uc)
    have r3: "readUInt16BE whole 3 = Inr (length name)"
      by (simp add: readUInt16BE_def w ul)
    have w2: "whole = header @ concat bs @ (Buffer_from_utf8 name @ Buffer_from_utf8 extra)"
      by (simp add: whole_def buffer_def)
    have lh: "length header = 5" by (simp add: header_def)
    have dp: "decodePeers whole (length ps) 5 = Inr (map wire_fields ps, 5 + 8 * length ps)"
      using dec [of header "Buffer_from_utf8 name @ Buffer_from_utf8 extra"]
      unfolding w2 by (simp add: lh)
    have dr: "drop (5 + 8 * length ps) whole = Buffer_from_utf8 name @ Buffer_from_utf8 extra"
      unfolding w2 using len by (simp add: lh)
    have sl: "slice whole (5 + 8 * length ps) (5 + 8 * length ps + length name) = Buffer_from_utf8 name"
      by (simp add: slice_def dr)
    have dr2: "drop (5 + 8 * length ps + length name) whole = Buffer_from_utf8 extra"
      using dr by (metis append_eq_conv_conj drop_drop add.commute length_Buffer_from_utf8)
    have lw: "length whole = 5 + 8 * length ps + length name + length extra"
      unfolding w2 using len by (simp add: lh)
    have "decodeMessage JSON_parse whole =
          Inr \<lparr>version = 18, messageType = mtype, numPeers = length ps, senderName = name,
               peers = map wire_fields ps,
               selfInfo = (if extra = [] then None else JSON_parse extra)\<rparr>"
      by (simp add: decodeMessage_def r0 r1 r2 r3 dp Let_def sl dr2 lw)
    then show ?thesis by (simp add: whole_def)
  qed
  with cm show ?thesis by blast
qed

text \<open>
  C1, amended. The type of the message is a byte, the name of the sender has at most
  65535 bytes, and the list holds at most 255 peers, each with a dotted address in the
  usual form, a port up to 65535 and an identity of four hexadecimal digits in lower
  case. Then the encoder returns a buffer, and decoding it gives the version, the type,
  the number of peers, the three wire fields of every peer and the name of the sender,
  with no self-description. For a Hello message with a self-description that
  \<open>JSON.stringify\<close> turns into a text that \<open>JSON.parse\<close> reads back, the decoded
  message carries that self-description as well.
\<close>

theorem round_trip:
  assumes "mtype \<le> 255" and "length ps \<le> 255" and "length name \<le> 65535"
    and "list_all wire_peer ps"
    and "JSON_stringify info = Some json_text" and "json_text \<noteq> []" and "JSON_parse json_text = Some info"
  shows "(\<exists>buffer. createMessage mtype name ps = Inr buffer
            \<and> decodeMessage JSON_parse buffer =
                Inr \<lparr>version = kPTP_VERSION, messageType = mtype, numPeers = length ps,
                     senderName = name, peers = map wire_fields ps, selfInfo = None\<rparr>)
       \<and> (\<exists>buffer. createHelloMessage JSON_stringify name ps info = Inr buffer
            \<and> decodeMessage JSON_parse buffer =
                Inr \<lparr>version = kPTP_VERSION, messageType = HELLO, numPeers = length ps,
                     senderName = name, peers = map wire_fields ps, selfInfo = Some info\<rparr>)"
proof -
  from decode_created [OF assms(1,2,3,4), of JSON_parse] obtain buffer where
    b: "createMessage mtype name ps = Inr buffer"
    and d: "\<And>extra. decodeMessage JSON_parse (buffer @ Buffer_from_utf8 extra) =
                 Inr \<lparr>version = 18, messageType = mtype, numPeers = length ps, senderName = name,
                      peers = map wire_fields ps,
                      selfInfo = (if extra = [] then None else JSON_parse extra)\<rparr>"
    by blast
  from d [of "[]"] have one: "decodeMessage JSON_parse buffer =
                Inr \<lparr>version = kPTP_VERSION, messageType = mtype, numPeers = length ps,
                     senderName = name, peers = map wire_fields ps, selfInfo = None\<rparr>"
    by (simp add: Buffer_from_utf8_def kPTP_VERSION_def)
  have h: "HELLO \<le> 255" by (simp add: HELLO_def)
  from decode_created [OF h assms(2,3,4), of JSON_parse] obtain hello where
    hb: "createMessage HELLO name ps = Inr hello"
    and hdec: "\<And>extra. decodeMessage JSON_parse (hello @ Buffer_from_utf8 extra) =
                 Inr \<lparr>version = 18, messageType = HELLO, numPeers = length ps, senderName = name,
                      peers = map wire_fields ps,
                      selfInfo = (if extra = [] then None else JSON_parse extra)\<rparr>"
    by blast
  have "createHelloMessage JSON_stringify name ps info = Inr (hello @ Buffer_from_utf8 json_text)"
    by (simp add: createHelloMessage_def hb assms(5))
  moreover have "decodeMessage JSON_parse (hello @ Buffer_from_utf8 json_text) =
                Inr \<lparr>version = kPTP_VERSION, messageType = HELLO, numPeers = length ps,
                     senderName = name, peers = map wire_fields ps, selfInfo = Some info\<rparr>"
    using hdec [of json_text] assms(6,7) by (simp add: kPTP_VERSION_def)
  ultimately show ?thesis using b one by blast
qed

theorem round_trip_witness:
  "list_all wire_peer [sample_peer ''3fa9'' 5]
   \<and> and_then (createHeartbeatMessage ''peer2'' ''127.0.0.1'' 5000 ''3fa9'') (decodeMessage sample_parse) =
       Inr \<lparr>version = 18, messageType = 6, numPeers = 1, senderName = ''peer2'',
            peers = [wire_fields (sample_peer ''3fa9'' 5)], selfInfo = None\<rparr>
   \<and> and_then (createHelloMessage sample_stringify ''peer2'' [sample_peer ''3fa9'' 5] sample_selfInfo)
        (decodeMessage sample_parse) =
       Inr \<lparr>version = 18, messageType = 4, numPeers = 1, senderName = ''peer2'',
            peers = [wire_fields (sample_peer ''3fa9'' 5)], selfInfo = Some sample_selfInfo\<rparr>"
proof -
  have h1: "HEARTBEAT \<le> 255" by (simp add: HEARTBEAT_def)
  have h2: "length [sample_peer ''3fa9'' 5] \<le> 255" by simp
  have h3: "length ''peer2'' \<le> 65535" by simp
  have h4: "list_all wire_peer [sample_peer ''3fa9'' 5]"
    by (simp add: wire_peer_def sample_peer_def is_dotted_quad_def is_octet_text_def is_digit_def
        decimal_value_def is_wire_identity_def)
  have h5: "sample_stringify sample_selfInfo = Some sample_text" by (simp add: sample_stringify_def)
  have h6: "sample_text \<noteq> []" by (simp add: sample_text_def)
  have h7: "sample_parse sample_text = Some sample_selfInfo" by (simp add: sample_parse_def)
  have w: "wire_fields (sample_peer ''3fa9'' 5) =
      wire_fields \<lparr>ip = ''127.0.0.1'', port = 5000, peerID = ''3fa9'',
                    peer.senderName = None, lastSeen = None\<rparr>"
    by (simp add: wire_fields_def sample_peer_def)
  have c: "createHeartbeatMessage ''peer2'' ''127.0.0.1'' 5000 ''3fa9'' =
           createMessage HEARTBEAT ''peer2''
             [\<lparr>ip = ''127.0.0.1'', port = 5000, peerID = ''3fa9'',
               peer.senderName = None, lastSeen = None\<rparr>]"
    by (simp add: createHeartbeatMessage_def)
  have e: "createMessage HEARTBEAT ''peer2''
             [\<lparr>ip = ''127.0.0.1'', port = 5000, peerID = ''3fa9'',
               peer.senderName = None, lastSeen = None\<rparr>]
         = createMessage HEARTBEAT ''peer2'' [sample_peer ''3fa9'' 5]"
    by (simp add: createMessage_def encodePeerInfo_def sample_peer_def)
  from round_trip [where mtype = HEARTBEAT and ps = "[sample_peer ''3fa9'' 5]"
      and name = "''peer2''" and JSON_stringify = sample_stringify and info = sample_selfInfo
      and json_text = sample_text and JSON_parse = sample_parse, OF h1 h2 h3 h4 h5 h6 h7] h4
  show ?thesis
    unfolding c e by (auto simp: kPTP_VERSION_def HEARTBEAT_def HELLO_def)
qed

text \<open>
  C1, as stated, fails: a peer whose address is not a dotted quadruple (here the
  loopback address of IPv6, as a socket reports it) is encoded with the address
  \<open>0.0.0.0\<close>, and that is what the decoder returns.
\<close>

lemma toString10_0: "toString10 0 = ''0''"
  by code_simp

lemma toString_hex_3fa9: "toString_hex [63, 169] = ''3fa9''"
  by code_simp

lemma toString_utf8_peer1: "toString_utf8 [112, 101, 101, 114, 49] = ''peer1''"
  by code_simp

lemma Buffer_from_utf8_peer1: "Buffer_from_utf8 ''peer1'' = [112, 101, 101, 114, 49]"
  by code_simp

lemma encodeIP_v6: "encodeIP ''::1'' = [0, 0, 0, 0]"
  by code_simp

lemma encodePeerID_3fa9: "encodePeerID ''3fa9'' = [63, 169]"
  by code_simp

theorem round_trip_fails_on_other_address:
  "createWelcomeMessage ''peer1'' [(sample_peer ''3fa9'' 5)\<lparr>ip := ''::1''\<rparr>] =
     Inr [18, 2, 1, 0, 5, 0, 0, 0, 0, 19, 136, 63, 169, 112, 101, 101, 114, 49]
   \<and> decodeMessage sample_parse [18, 2, 1, 0, 5, 0, 0, 0, 0, 19, 136, 63, 169, 112, 101, 101, 114, 49] =
     Inr \<lparr>version = 18, messageType = 2, numPeers = 1, senderName = ''peer1'',
          peers = [\<lparr>ip = ''0.0.0.0'', port = 5000, peerID = ''3fa9'',
                    peer.senderName = None, lastSeen = None\<rparr>],
          selfInfo = None\<rparr>"
proof -
  have a: "createWelcomeMessage ''peer1'' [(sample_peer ''3fa9'' 5)\<lparr>ip := ''::1''\<rparr>] =
     Inr [18, 2, 1, 0, 5, 0, 0, 0, 0, 19, 136, 63, 169, 112, 101, 101, 114, 49]"
    by (simp add: createWelcomeMessage_def createMessage_def createHeader_def writeUInt8_def
        writeUInt16BE_def encodePeerInfo_def encodePort_def WELCOME_def kPTP_VERSION_def
        sample_peer_def Let_def encodeIP_v6 encodePeerID_3fa9 Buffer_from_utf8_peer1)
  have b: "decodeMessage sample_parse [18, 2, 1, 0, 5, 0, 0, 0, 0, 19, 136, 63, 169, 112, 101, 101, 114, 49] =
     Inr \<lparr>version = 18, messageType = 2, numPeers = 1, senderName = ''peer1'',
          peers = [\<lparr>ip = ''0.0.0.0'', port = 5000, peerID = ''3fa9'',
                    peer.senderName = None, lastSeen = None\<rparr>],
          selfInfo = None\<rparr>"
    by (simp add: decodeMessage_def readUInt8_def readUInt16BE_def slice_def Let_def
        toString10_0 toString_hex_3fa9 toString_utf8_peer1)
  from a b show ?thesis by (rule conjI)
qed

end
